theory Spec2Isabelle
  imports Main "HOL-Library.Sublist"
begin

section \<open>Scriptworker artifact operations\<close>

text \<open>
  A shallow embedding of \<^verbatim>\<open>scriptworker/artifacts.py\<close>. Paths, content types and
  file contents are strings; the file system is a partial map from paths to contents;
  every exception of the source is a value of \<open>error\<close>.
\<close>

subsection \<open>Exceptions\<close>

datatype error =
    ScriptWorkerTaskException string
  | ScriptWorkerRetryException string
  | ClientError string
  | TimeoutError
  | DownloadError string
  | FileNotFoundError string
  | OtherError string

subsection \<open>Python string helpers\<close>

text \<open>\<^verbatim>\<open>s.endswith(suf)\<close> and \<^verbatim>\<open>s.startswith(pre)\<close>.\<close>

definition endswith :: "string \<Rightarrow> string \<Rightarrow> bool" where
  "endswith s suf = (length suf \<le> length s \<and> drop (length s - length suf) s = suf)"

definition startswith :: "string \<Rightarrow> string \<Rightarrow> bool" where
  "startswith s pre = (take (length pre) s = pre)"

text \<open>\<^verbatim>\<open>x or default\<close> on a value that is \<^verbatim>\<open>None\<close> or a string: the empty string is falsy.\<close>

definition str_or :: "string option \<Rightarrow> string \<Rightarrow> string" where
  "str_or x d = (case x of None \<Rightarrow> d | Some s \<Rightarrow> if s = [] then d else s)"

subsection \<open>Content type classification\<close>

type_synonym mime = "string \<times> string option"

definition GZIP_SUPPORTED_CONTENT_TYPE :: "string list" where
  "GZIP_SUPPORTED_CONTENT_TYPE =
     [''text/plain'', ''application/json'', ''text/html'', ''application/xml'']"

text \<open>The override table, in the order the source writes it (a dict iterates in insertion order).\<close>

definition EXTENSION_TO_MIME_TYPE :: "(string \<times> mime) list" where
  "EXTENSION_TO_MIME_TYPE =
     [(''.tar.gz'', (''application/x-tar'', None)),
      (''.tgz'', (''application/x-tar'', None)),
      (''.txt'', (''text/plain'', None)),
      (''.dmg'', (''application/x-apple-diskimage'', None)),
      (''.log'', (''text/plain'', None)),
      (''.asc'', (''text/plain'', None)),
      (''.diff'', (''text/plain'', None)),
      (''.xml'', (''application/xml'', None))]"

text \<open>The \<^verbatim>\<open>for ext, content_type in ...items()\<close> loop: the first entry whose extension ends the path.\<close>

fun first_matching_extension :: "(string \<times> mime) list \<Rightarrow> string \<Rightarrow> mime option" where
  "first_matching_extension [] path = None"
| "first_matching_extension ((ext, content_type) # rest) path =
     (if endswith path ext then Some content_type else first_matching_extension rest path)"

text \<open>
  \<^verbatim>\<open>mimetypes.guess_type\<close> belongs to the Python standard library and reads a system
  database; it is the parameter \<open>guess_type\<close>.
\<close>

definition guess_content_type_and_encoding ::
    "(string \<Rightarrow> string option \<times> string option) \<Rightarrow> string \<Rightarrow> mime" where
  "guess_content_type_and_encoding guess_type path =
     (case first_matching_extension EXTENSION_TO_MIME_TYPE path of
        Some content_type \<Rightarrow> content_type
      | None \<Rightarrow>
          (case guess_type path of
             (content_type, encoding) \<Rightarrow> (str_or content_type ''application/binary'', encoding)))"

subsection \<open>Compression in place\<close>

type_synonym bytes = string
type_synonym filesystem = "string \<rightharpoonup> bytes"

text \<open>
  \<open>gz\<close> stands for what \<^verbatim>\<open>gzip.open(path, 'wb').write\<close> leaves in the file.
  Opening a path that is not there raises.
\<close>

definition compress_artifact_if_supported ::
    "(string \<Rightarrow> string option \<times> string option) \<Rightarrow> (bytes \<Rightarrow> bytes) \<Rightarrow>
     filesystem \<Rightarrow> string \<Rightarrow> error + (mime \<times> filesystem)" where
  "compress_artifact_if_supported guess_type gz fs artifact_path =
     (case guess_content_type_and_encoding guess_type artifact_path of
        (content_type, encoding) \<Rightarrow>
          if encoding = None \<and> content_type \<in> set GZIP_SUPPORTED_CONTENT_TYPE then
            (case fs artifact_path of
               None \<Rightarrow> Inl (FileNotFoundError artifact_path)
             | Some text_content \<Rightarrow>
                 Inr ((content_type, Some ''gzip''), fs(artifact_path \<mapsto> gz text_content)))
          else Inr ((content_type, encoding), fs))"

subsection \<open>Paths\<close>

text \<open>
  \<^verbatim>\<open>os.path.join\<close>, \<^verbatim>\<open>os.path.normpath\<close> and \<^verbatim>\<open>os.path.abspath\<close> of the
  Python standard library (posixpath), transcribed statement by statement. The current
  directory that \<^verbatim>\<open>abspath\<close> reads is the parameter \<open>cwd\<close>.
\<close>

definition join_step :: "string \<Rightarrow> string \<Rightarrow> string" where
  "join_step path b =
     (if startswith b ''/'' then b
      else if path = [] \<or> endswith path ''/'' then path @ b
      else path @ ''/'' @ b)"

definition os_path_join :: "string \<Rightarrow> string list \<Rightarrow> string" where
  "os_path_join a p = foldl join_step a p"

text \<open>\<^verbatim>\<open>path.split('/')\<close>; \<open>cur\<close> is the component being read.\<close>

fun split_acc :: "string \<Rightarrow> string \<Rightarrow> string list" where
  "split_acc cur [] = [cur]"
| "split_acc cur (c # cs) =
     (if c = CHR ''/'' then cur # split_acc [] cs else split_acc (cur @ [c]) cs)"

definition split_sep :: "string \<Rightarrow> string list" where
  "split_sep path = split_acc [] path"

text \<open>\<^verbatim>\<open>'/'.join(comps)\<close>.\<close>

fun sep_join :: "string list \<Rightarrow> string" where
  "sep_join [] = []"
| "sep_join [c] = c"
| "sep_join (c # d # cs) = c @ ''/'' @ sep_join (d # cs)"

definition initial_slashes :: "string \<Rightarrow> nat" where
  "initial_slashes path =
     (if startswith path ''/'' then
        (if startswith path ''//'' \<and> \<not> startswith path ''///'' then 2 else 1)
      else 0)"

definition normpath_step :: "nat \<Rightarrow> string list \<Rightarrow> string \<Rightarrow> string list" where
  "normpath_step init new_comps component =
     (if component = [] \<or> component = ''.'' then new_comps
      else if component \<noteq> ''..'' \<or> (init = 0 \<and> new_comps = [])
              \<or> (new_comps \<noteq> [] \<and> last new_comps = ''..'')
        then new_comps @ [component]
      else if new_comps \<noteq> [] then butlast new_comps
      else new_comps)"

definition normpath :: "string \<Rightarrow> string" where
  "normpath path =
     (if path = [] then ''.''
      else
        let init = initial_slashes path;
            comps = foldl (normpath_step init) [] (split_sep path);
            p = replicate init (CHR ''/'') @ sep_join comps
        in if p = [] then ''.'' else p)"

definition abspath :: "string \<Rightarrow> string \<Rightarrow> string" where
  "abspath cwd path =
     (if \<not> startswith path ''/'' then normpath (os_path_join cwd [path]) else normpath path)"

subsection \<open>The task context\<close>

text \<open>
  The \<^verbatim>\<open>optional\<close> key of an upstream artifact definition may be absent, a JSON boolean,
  or any other JSON value; the source tests it with \<^verbatim>\<open>.get('optional', False) is True\<close>.
\<close>

datatype optional_field = Absent | JsonBool bool | JsonOther

record artifact_definition =
  taskId :: string
  paths :: "string list"
  optional :: optional_field

record task =
  dependencies :: "string list"
  taskGroupId :: string
  upstreamArtifacts :: "artifact_definition list"

record task_context =
  work_dir :: string
  artifact_dir :: string
  claimed_task :: task

subsection \<open>Upstream artifacts\<close>

definition get_single_upstream_artifact_full_path ::
    "string \<Rightarrow> task_context \<Rightarrow> string \<Rightarrow> string \<Rightarrow> string" where
  "get_single_upstream_artifact_full_path cwd ctx task_id path =
     abspath cwd (os_path_join (work_dir ctx) [''cot'', task_id, path])"

text \<open>\<open>exists\<close> is \<^verbatim>\<open>os.path.exists\<close> on the worker's disk.\<close>

definition get_and_check_single_upstream_artifact_full_path ::
    "string \<Rightarrow> (string \<Rightarrow> bool) \<Rightarrow> task_context \<Rightarrow> string \<Rightarrow> string \<Rightarrow> error + string" where
  "get_and_check_single_upstream_artifact_full_path cwd exists ctx task_id path =
     (let abs_path = get_single_upstream_artifact_full_path cwd ctx task_id path in
      if \<not> exists abs_path then
        Inl (ScriptWorkerTaskException
               (''upstream artifact with path: '' @ abs_path @ '', does not exist''))
      else Inr abs_path)"

text \<open>
  Modelled from the spec: \<^verbatim>\<open>add_enumerable_item_to_dict\<close> of \<^verbatim>\<open>scriptworker/utils.py\<close>
  is not among the sources. The spec has each path recorded under its task id's list, and the
  source calls it where "a given taskId might be defined many times": the key's list is
  created when missing and the items are added at its end. A single item is passed as a
  one-element list.
\<close>

definition add_enumerable_item_to_dict ::
    "(string \<rightharpoonup> string list) \<Rightarrow> string \<Rightarrow> string list \<Rightarrow> (string \<rightharpoonup> string list)" where
  "add_enumerable_item_to_dict dict key items =
     dict(key \<mapsto> (case dict key of None \<Rightarrow> [] | Some xs \<Rightarrow> xs) @ items)"

fun optional_artifacts_loop ::
    "(string \<rightharpoonup> string list) \<Rightarrow> artifact_definition list \<Rightarrow> (string \<rightharpoonup> string list)" where
  "optional_artifacts_loop acc [] = acc"
| "optional_artifacts_loop acc (artifact_definition # rest) =
     optional_artifacts_loop
       (if optional artifact_definition = JsonBool True then
          add_enumerable_item_to_dict acc (taskId artifact_definition) (paths artifact_definition)
        else acc)
       rest"

definition get_optional_artifacts_per_task_id ::
    "artifact_definition list \<Rightarrow> (string \<rightharpoonup> string list)" where
  "get_optional_artifacts_per_task_id upstream_artifacts =
     optional_artifacts_loop Map.empty upstream_artifacts"

text \<open>\<^verbatim>\<open>dict.get(key, [])\<close>.\<close>

definition dict_get :: "(string \<rightharpoonup> string list) \<Rightarrow> string \<Rightarrow> string list" where
  "dict_get d key = (case d key of None \<Rightarrow> [] | Some xs \<Rightarrow> xs)"

type_synonym path_maps = "(string \<rightharpoonup> string list) \<times> (string \<rightharpoonup> string list)"

text \<open>
  The inner \<^verbatim>\<open>for path in paths\<close> loop with its \<^verbatim>\<open>try/except ScriptWorkerTaskException\<close>:
  the state is the pair of dictionaries, an exception that is re-raised ends the loops.
\<close>

fun upstream_paths_loop ::
    "string \<Rightarrow> (string \<Rightarrow> bool) \<Rightarrow> task_context \<Rightarrow> (string \<rightharpoonup> string list) \<Rightarrow>
     string \<Rightarrow> path_maps \<Rightarrow> string list \<Rightarrow> error + path_maps" where
  "upstream_paths_loop cwd exists ctx opt task_id st [] = Inr st"
| "upstream_paths_loop cwd exists ctx opt task_id st (path # rest) =
     (case get_and_check_single_upstream_artifact_full_path cwd exists ctx task_id path of
        Inr path_to_add \<Rightarrow>
          upstream_paths_loop cwd exists ctx opt task_id
            (add_enumerable_item_to_dict (fst st) task_id [path_to_add], snd st) rest
      | Inl (ScriptWorkerTaskException msg) \<Rightarrow>
          if path \<in> set (dict_get opt task_id) then
            upstream_paths_loop cwd exists ctx opt task_id
              (fst st, add_enumerable_item_to_dict (snd st) task_id [path]) rest
          else Inl (ScriptWorkerTaskException msg)
      | Inl e \<Rightarrow> Inl e)"

fun upstream_definitions_loop ::
    "string \<Rightarrow> (string \<Rightarrow> bool) \<Rightarrow> task_context \<Rightarrow> (string \<rightharpoonup> string list) \<Rightarrow>
     path_maps \<Rightarrow> (string \<times> string list) list \<Rightarrow> error + path_maps" where
  "upstream_definitions_loop cwd exists ctx opt st [] = Inr st"
| "upstream_definitions_loop cwd exists ctx opt st ((task_id, ps) # rest) =
     (case upstream_paths_loop cwd exists ctx opt task_id st ps of
        Inl e \<Rightarrow> Inl e
      | Inr st' \<Rightarrow> upstream_definitions_loop cwd exists ctx opt st' rest)"

definition get_upstream_artifacts_full_paths_per_task_id ::
    "string \<Rightarrow> (string \<Rightarrow> bool) \<Rightarrow> task_context \<Rightarrow> error + path_maps" where
  "get_upstream_artifacts_full_paths_per_task_id cwd exists ctx =
     (let upstream_artifacts = upstreamArtifacts (claimed_task ctx);
          task_ids_and_relative_paths =
            map (\<lambda>artifact_definition. (taskId artifact_definition, paths artifact_definition))
              upstream_artifacts;
          optional_artifacts_per_task_id = get_optional_artifacts_per_task_id upstream_artifacts
      in upstream_definitions_loop cwd exists ctx optional_artifacts_per_task_id
           (Map.empty, Map.empty) task_ids_and_relative_paths)"

subsection \<open>Retrying and awaiting a batch\<close>

text \<open>
  Modelled from the spec: \<^verbatim>\<open>retry_async\<close> of \<^verbatim>\<open>scriptworker/utils.py\<close> is not among the
  sources. Spec 4.1: invoke the operation; on an exception whose kind is in the transient
  set, sleep and retry, up to the attempt limit; on exhaustion re-raise the last transient
  exception; on any other exception propagate at once; success is "did not raise".
  The operation is given as a function of the attempt number (1, 2, ...), since each
  invocation meets the outside world anew. The result is the outcome together with the
  number of invocations made. The sleeps are not modelled.
\<close>

definition transient_failure :: "(error \<Rightarrow> bool) \<Rightarrow> error + 'a \<Rightarrow> bool" where
  "transient_failure retry_exceptions r = (case r of Inl e \<Rightarrow> retry_exceptions e | Inr _ \<Rightarrow> False)"

text \<open>
  Modelled from the spec: the retry loop of \<^verbatim>\<open>retry_async\<close> from attempt number
  \<open>attempt\<close> on, a transient failure being retried while the attempt limit is not reached.
\<close>

function retry_from ::
    "(error \<Rightarrow> bool) \<Rightarrow> nat \<Rightarrow> (nat \<Rightarrow> error + 'a) \<Rightarrow> nat \<Rightarrow> (error + 'a) \<times> nat" where
  "retry_from retry_exceptions attempts func attempt =
     (if transient_failure retry_exceptions (func attempt) \<and> attempt < attempts
      then retry_from retry_exceptions attempts func (Suc attempt)
      else (func attempt, attempt))"
  by pat_completeness auto
termination
  by (relation "measure (\<lambda>(retry_exceptions, attempts, func, attempt). attempts - attempt)") auto

declare retry_from.simps [simp del]

text \<open>Modelled from the spec: \<^verbatim>\<open>retry_async\<close>, whose first attempt has number 1.\<close>

definition retry_async ::
    "(error \<Rightarrow> bool) \<Rightarrow> nat \<Rightarrow> (nat \<Rightarrow> error + 'a) \<Rightarrow> (error + 'a) \<times> nat" where
  "retry_async retry_exceptions attempts func = retry_from retry_exceptions attempts func 1"

text \<open>
  Modelled from the spec: \<^verbatim>\<open>raise_future_exceptions\<close> of \<^verbatim>\<open>scriptworker/utils.py\<close> is not
  among the sources. Spec 4.2: the operations of a batch are awaited together, every started
  operation is allowed to finish, and if any failed the batch raises the first exception
  observed. The argument is the list of the finished operations' outcomes, in the order of
  the task list, which is the order in which they are inspected.
\<close>

fun raise_future_exceptions :: "(error + 'a) list \<Rightarrow> error option" where
  "raise_future_exceptions [] = None"
| "raise_future_exceptions (Inl exc # tasks) = Some exc"
| "raise_future_exceptions (Inr v # tasks) = raise_future_exceptions tasks"

subsection \<open>Uploading\<close>

text \<open>Decimal digits of a number, for \<^verbatim>\<open>"Bad status {}".format(resp.status)\<close>.\<close>

function decimal :: "nat \<Rightarrow> string" where
  "decimal n =
     (if n < 10 then [char_of (48 + n)] else decimal (n div 10) @ [char_of (48 + n mod 10)])"
  by pat_completeness auto
termination
  by (relation "measure id") auto

declare decimal.simps [simp del]

definition craft_artifact_put_headers :: "string \<Rightarrow> string option \<Rightarrow> (string \<times> string) list" where
  "craft_artifact_put_headers content_type encoding =
     (''Content-Type'', content_type)
       # (case encoding of None \<Rightarrow> [] | Some e \<Rightarrow> [(''Content-Encoding'', e)])"

text \<open>
  The outside world of one upload attempt: what the queue answers to \<^verbatim>\<open>createArtifact\<close>
  for a target path (the signed \<^verbatim>\<open>putUrl\<close>, or an exception), and what the HTTP PUT of a body
  with given headers to a URL gives (the response status, or an exception such as
  \<open>ClientError\<close> or \<open>TimeoutError\<close>). Both depend on the attempt number. The task id, run id
  and payload of the request are fixed for a task and are part of the queue's answer.
\<close>

record upload_world =
  createArtifact :: "string \<Rightarrow> nat \<Rightarrow> error + string"
  session_put :: "string \<Rightarrow> bytes \<Rightarrow> (string \<times> string) list \<Rightarrow> nat \<Rightarrow> error + nat"

definition create_artifact ::
    "upload_world \<Rightarrow> filesystem \<Rightarrow> string \<Rightarrow> string \<Rightarrow> string \<Rightarrow> string option \<Rightarrow> nat
     \<Rightarrow> error + unit" where
  "create_artifact world fs path target_path content_type content_encoding attempt =
     (case createArtifact world target_path attempt of
        Inl e \<Rightarrow> Inl e
      | Inr putUrl \<Rightarrow>
          (case fs path of
             None \<Rightarrow> Inl (FileNotFoundError path)
           | Some fh \<Rightarrow>
               (case session_put world putUrl fh
                       (craft_artifact_put_headers content_type content_encoding) attempt of
                  Inl e \<Rightarrow> Inl e
                | Inr status \<Rightarrow>
                    if status \<notin> {200, 204} then
                      Inl (ScriptWorkerRetryException (''Bad status '' @ decimal status))
                    else Inr ())))"

text \<open>\<^verbatim>\<open>retry_exceptions=(ScriptWorkerRetryException, aiohttp.ClientError)\<close>.\<close>

fun create_artifact_retry_exceptions :: "error \<Rightarrow> bool" where
  "create_artifact_retry_exceptions (ScriptWorkerRetryException msg) = True"
| "create_artifact_retry_exceptions (ClientError msg) = True"
| "create_artifact_retry_exceptions e = False"

definition retry_create_artifact ::
    "nat \<Rightarrow> upload_world \<Rightarrow> filesystem \<Rightarrow> string \<Rightarrow> string \<Rightarrow> string \<Rightarrow> string option
     \<Rightarrow> (error + unit) \<times> nat" where
  "retry_create_artifact attempts world fs path target_path content_type content_encoding =
     retry_async create_artifact_retry_exceptions attempts
       (create_artifact world fs path target_path content_type content_encoding)"

text \<open>An upload operation that \<^verbatim>\<open>to_upload_future\<close> has created: the arguments of its
  \<^verbatim>\<open>retry_create_artifact\<close> call.\<close>

record upload_task =
  ut_path :: string
  ut_target_path :: string
  ut_content_type :: string
  ut_content_encoding :: "string option"

text \<open>
  \<^verbatim>\<open>tasks = list(map(to_upload_future, files))\<close>: each file is compressed if supported, right
  away, and its upload is created; the uploads only run once the batch is awaited. An
  exception of the compression ends the call with the operations created so far never awaited.
\<close>

fun to_upload_futures ::
    "(string \<Rightarrow> string option \<times> string option) \<Rightarrow> (bytes \<Rightarrow> bytes) \<Rightarrow> task_context \<Rightarrow>
     filesystem \<Rightarrow> upload_task list \<Rightarrow> string list \<Rightarrow> error option \<times> filesystem \<times> upload_task list" where
  "to_upload_futures guess_type gz ctx fs tasks [] = (None, fs, tasks)"
| "to_upload_futures guess_type gz ctx fs tasks (target_path # files) =
     (let path = os_path_join (artifact_dir ctx) [target_path] in
      case compress_artifact_if_supported guess_type gz fs path of
        Inl e \<Rightarrow> (Some e, fs, tasks)
      | Inr ((content_type, content_encoding), fs') \<Rightarrow>
          to_upload_futures guess_type gz ctx fs'
            (tasks @ [\<lparr>ut_path = path, ut_target_path = target_path,
                       ut_content_type = content_type, ut_content_encoding = content_encoding\<rparr>])
            files)"

definition run_upload_task ::
    "nat \<Rightarrow> upload_world \<Rightarrow> filesystem \<Rightarrow> upload_task \<Rightarrow> (error + unit) \<times> nat" where
  "run_upload_task attempts world fs t =
     retry_create_artifact attempts world fs (ut_path t) (ut_target_path t)
       (ut_content_type t) (ut_content_encoding t)"

text \<open>
  What a call of \<^verbatim>\<open>upload_artifacts\<close> leaves behind: the exception it raised, if any; the
  file system; the upload operations it started; for each operation that ran, in the order of
  the task list, its outcome and its number of \<^verbatim>\<open>create_artifact\<close> invocations; and the target
  paths whose upload succeeded, which then exist on the remote side.
\<close>

record upload_outcome =
  up_raised :: "error option"
  up_fs :: filesystem
  up_started :: "upload_task list"
  up_finished :: "((error + unit) \<times> nat) list"
  up_uploaded :: "string list"

definition upload_artifacts ::
    "(string \<Rightarrow> string option \<times> string option) \<Rightarrow> (bytes \<Rightarrow> bytes) \<Rightarrow> nat \<Rightarrow> upload_world \<Rightarrow>
     task_context \<Rightarrow> filesystem \<Rightarrow> string list \<Rightarrow> upload_outcome" where
  "upload_artifacts guess_type gz attempts world ctx fs files =
     (case to_upload_futures guess_type gz ctx fs [] files of
        (Some e, fs', tasks) \<Rightarrow>
          \<lparr>up_raised = Some e, up_fs = fs', up_started = tasks, up_finished = [], up_uploaded = []\<rparr>
      | (None, fs', tasks) \<Rightarrow>
          (let finished = map (run_upload_task attempts world fs') tasks in
           \<lparr>up_raised = raise_future_exceptions (map fst finished),
            up_fs = fs',
            up_started = tasks,
            up_finished = finished,
            up_uploaded =
              map ut_target_path (filter (\<lambda>t. \<not> isl (fst (run_upload_task attempts world fs' t))) tasks)\<rparr>))"

subsection \<open>Downloading\<close>

text \<open>
  Modelled from the spec: \<^verbatim>\<open>get_decision_task_id\<close> of \<^verbatim>\<open>scriptworker/task.py\<close> is not among
  the sources; the spec calls it the id of the task's originating decision/group task.
\<close>

definition get_decision_task_id :: "task \<Rightarrow> string" where
  "get_decision_task_id t = taskGroupId t"

text \<open>\<^verbatim>\<open>retry_exceptions=(DownloadError, aiohttp.ClientError, asyncio.TimeoutError)\<close>.\<close>

fun download_retry_exceptions :: "error \<Rightarrow> bool" where
  "download_retry_exceptions (DownloadError msg) = True"
| "download_retry_exceptions (ClientError msg) = True"
| "download_retry_exceptions TimeoutError = True"
| "download_retry_exceptions e = False"

text \<open>
  The \<^verbatim>\<open>for file_url in file_urls\<close> loop. \<open>validate\<close> is \<^verbatim>\<open>validate_artifact_url\<close> with the
  configured rules and the allow-list applied; it returns the relative path or raises. Each
  validated URL gets its download operation created, which runs only when the batch is awaited.
\<close>

fun validate_and_schedule ::
    "('u \<Rightarrow> error + string) \<Rightarrow> string \<Rightarrow> string list \<Rightarrow> ('u \<times> string) list \<Rightarrow> 'u list
     \<Rightarrow> error option \<times> string list \<times> ('u \<times> string) list" where
  "validate_and_schedule validate parent_dir files tasks [] = (None, files, tasks)"
| "validate_and_schedule validate parent_dir files tasks (file_url # file_urls) =
     (case validate file_url of
        Inl e \<Rightarrow> (Some e, files, tasks)
      | Inr rel_path \<Rightarrow>
          (let abs_file_path = os_path_join parent_dir [rel_path] in
           validate_and_schedule validate parent_dir (files @ [abs_file_path])
             (tasks @ [(file_url, abs_file_path)]) file_urls))"

text \<open>
  What a call of \<^verbatim>\<open>download_artifacts\<close> gives: the returned list of paths or the exception
  raised; the download operations it created (URL and destination); and for each operation
  that ran, in the order of the task list, its outcome and its number of \<^verbatim>\<open>download_func\<close>
  invocations.
\<close>

record 'u download_outcome =
  dl_result :: "error + string list"
  dl_started :: "('u \<times> string) list"
  dl_finished :: "((error + unit) \<times> nat) list"

text \<open>
  \<open>validate_artifact_url\<close> takes the allow-list and the URL (the configured rules are part of
  it); \<open>download_func\<close> takes the URL, the destination and the attempt number.
  \<^verbatim>\<open>parent_dir or work_dir\<close> and \<^verbatim>\<open>valid_artifact_task_ids or list(...)\<close> fall back on
  \<^verbatim>\<open>None\<close> and on an empty value alike.
\<close>

text \<open>
  \<^verbatim>\<open>valid_artifact_task_ids or list(task['dependencies'] + [get_decision_task_id(task)])\<close>.
\<close>

definition allowed_task_ids :: "task_context \<Rightarrow> string list option \<Rightarrow> string list" where
  "allowed_task_ids ctx valid_artifact_task_ids =
     (case valid_artifact_task_ids of
        None \<Rightarrow> dependencies (claimed_task ctx) @ [get_decision_task_id (claimed_task ctx)]
      | Some ids \<Rightarrow>
          if ids = [] then
            dependencies (claimed_task ctx) @ [get_decision_task_id (claimed_task ctx)]
          else ids)"

text \<open>The download operation created for a URL: its retried \<^verbatim>\<open>download_func\<close> call.\<close>

definition run_download_task ::
    "('u \<Rightarrow> string \<Rightarrow> nat \<Rightarrow> error + unit) \<Rightarrow> nat \<Rightarrow> 'u \<times> string \<Rightarrow> (error + unit) \<times> nat" where
  "run_download_task download_func attempts t =
     retry_async download_retry_exceptions attempts (download_func (fst t) (snd t))"

definition download_artifacts ::
    "(string list \<Rightarrow> 'u \<Rightarrow> error + string) \<Rightarrow> ('u \<Rightarrow> string \<Rightarrow> nat \<Rightarrow> error + unit) \<Rightarrow> nat \<Rightarrow>
     task_context \<Rightarrow> 'u list \<Rightarrow> string option \<Rightarrow> string list option \<Rightarrow> 'u download_outcome" where
  "download_artifacts validate_artifact_url download_func attempts ctx file_urls
       parent_dir valid_artifact_task_ids =
     (let parent_dir' = str_or parent_dir (work_dir ctx);
          valid_ids = allowed_task_ids ctx valid_artifact_task_ids
      in case validate_and_schedule (validate_artifact_url valid_ids) parent_dir' [] [] file_urls of
           (Some e, files, tasks) \<Rightarrow>
             \<lparr>dl_result = Inl e, dl_started = tasks, dl_finished = []\<rparr>
         | (None, files, tasks) \<Rightarrow>
             (let finished = map (run_download_task download_func attempts) tasks
              in \<lparr>dl_result =
                     (case raise_future_exceptions (map fst finished) of
                        Some e \<Rightarrow> Inl e
                      | None \<Rightarrow> Inr files),
                   dl_started = tasks,
                   dl_finished = finished\<rparr>))"

text \<open>
  Modelled from the spec: \<^verbatim>\<open>validate_artifact_url\<close> of \<^verbatim>\<open>scriptworker/client.py\<close> is not
  among the sources. Spec 4.2: a URL must resolve to a relative path anchored under one of the
  approved task ids; validation rejects a URL outside the allow-list or whose resolved path
  would escape the destination root. A URL is represented by what it resolves to: the task id
  it references and the file path under that task. The rejection is a task exception
  (spec 7: a security rejection is fatal and never retried).
\<close>

record artifact_url =
  url_task_id :: string
  url_filepath :: string

text \<open>
  Modelled from the spec: a relative path escapes the destination root when it is absolute or,
  normalised, starts with a \<open>..\<close> component.
\<close>

definition escapes_root :: "string \<Rightarrow> bool" where
  "escapes_root rel_path =
     (startswith rel_path ''/'' \<or> take 1 (split_sep (normpath rel_path)) = [''..''])"

text \<open>
  Modelled from the spec: \<^verbatim>\<open>validate_artifact_url\<close>, returning the relative path of an
  approved URL and raising for any other.
\<close>

definition validate_artifact_url :: "string list \<Rightarrow> artifact_url \<Rightarrow> error + string" where
  "validate_artifact_url valid_artifact_task_ids url =
     (if url_task_id url \<notin> set valid_artifact_task_ids \<or> escapes_root (url_filepath url)
      then Inl (ScriptWorkerTaskException (''Can't validate url''))
      else Inr (url_filepath url))"

subsection \<open>Describing the resulting dictionaries\<close>

text \<open>
  Used to state results only: the dictionary that maps each key whose list is not empty to
  that list, and the declared (task id, relative path) pairs in the order the loops visit them.
\<close>

definition dict_of :: "(string \<Rightarrow> string list) \<Rightarrow> (string \<rightharpoonup> string list)" where
  "dict_of f = (\<lambda>key. if f key = [] then None else Some (f key))"

definition declared_pairs :: "artifact_definition list \<Rightarrow> (string \<times> string) list" where
  "declared_pairs upstream_artifacts =
     concat (map (\<lambda>d. map (Pair (taskId d)) (paths d)) upstream_artifacts)"

subsection \<open>The task lifecycle controller\<close>

text \<open>
  Modelled from the spec: the controller \<^verbatim>\<open>RunTasks\<close> of \<^verbatim>\<open>scriptworker/worker.py\<close> is not
  among the sources; only its tests are. Spec 4.5 gives one poll cycle as the phases claim,
  prepare, reclaim keep-alive, execute, verify (if enabled), evidence, upload, complete, each
  cancellable at its boundary; spec 7 has the shutdown interrupt force the status
  worker-shutdown; spec 8 and the tests have a cancelled task upload the chain-of-trust log
  artifacts. A cycle is modelled by the sequence of calls it makes to its collaborators, for
  a given point at which \<^verbatim>\<open>cancel()\<close> arrives. The tests run with \<^verbatim>\<open>os.path.isfile\<close>
  answering \<open>True\<close>; the file test on the log artifacts is kept as the parameter \<open>isfile\<close>.
\<close>

datatype status =
    Success
  | TaskFailure
  | WorkerShutdown
  | ResourceUnavailable
  | InternalError
  | IntermittentTaskFailure
  | TaskTimeout

datatype call =
    ClaimWork
  | Sleep
  | PrepareToRunTask
  | StartReclaim
  | RunTask
  | WorkerShutdownStop
  | VerifyChainOfTrust
  | GenerateCot
  | DoUpload "string list"
  | CancelReclaim
  | CompleteTask status
  | Cleanup

datatype cancel_point =
    NotCancelled
  | CancelDuringClaim
  | CancelDuringSleep
  | CancelDuringExecute
  | CancelDuringVerify

text \<open>
  What the collaborators answer in one cycle: whether the queue has a task; the status the
  task's own run maps to; whether verification is enabled and the status of its failure, if
  it fails; the files of the artifact directory; the status of the upload; the file test.
\<close>

record cycle_env =
  task_available :: bool
  run_status :: status
  verify_chain_of_trust :: bool
  verify_failure :: "status option"
  artifact_files :: "string list"
  upload_status :: status
  isfile :: "string \<Rightarrow> bool"

text \<open>
  Modelled from the spec: the known chain-of-trust log artifacts, as the tests of the
  controller name them.
\<close>

definition shutdown_artifact_paths :: "string list" where
  "shutdown_artifact_paths = [''public/logs/chain_of_trust.log'', ''public/logs/live_backing.log'']"

text \<open>
  Modelled from the spec: each phase's failure is mapped to a status and one status is
  reported per cycle; which one wins when several phases fail is left open by the spec, and
  the model reports the first failing phase's.
\<close>

definition first_failure :: "status \<Rightarrow> status \<Rightarrow> status" where
  "first_failure a b = (if a = Success then b else a)"

text \<open>
  Modelled from the spec: phases 7 and 8, which upload, stop the keep-alive, report the
  status once and clean up.
\<close>

definition upload_and_complete :: "cycle_env \<Rightarrow> status \<Rightarrow> string list \<Rightarrow> call list" where
  "upload_and_complete env st files =
     [DoUpload files, CancelReclaim, CompleteTask (first_failure st (upload_status env)), Cleanup]"

text \<open>
  Modelled from the spec: the shutdown interrupt, which forces the status worker-shutdown and
  uploads the log artifacts that exist.
\<close>

definition shutdown_interrupt :: "cycle_env \<Rightarrow> call list" where
  "shutdown_interrupt env =
     [DoUpload (filter (isfile env) shutdown_artifact_paths), CancelReclaim,
      CompleteTask WorkerShutdown, Cleanup]"

text \<open>
  Modelled from the spec: phases 5 and 6, after the task has run with status \<open>st\<close>;
  a verification failure ends the task with its status and skips the evidence.
\<close>

definition verify_and_finish :: "cycle_env \<Rightarrow> cancel_point \<Rightarrow> status \<Rightarrow> call list" where
  "verify_and_finish env cancel st =
     (if verify_chain_of_trust env then
        VerifyChainOfTrust #
          (if cancel = CancelDuringVerify then shutdown_interrupt env
           else case verify_failure env of
                  Some failed \<Rightarrow> upload_and_complete env (first_failure st failed) (artifact_files env)
                | None \<Rightarrow> GenerateCot # upload_and_complete env st (artifact_files env))
      else GenerateCot # upload_and_complete env st (artifact_files env))"

text \<open>
  Modelled from the spec: one poll cycle. Cancellation during the claim stops the cycle; with
  no task the cycle sleeps; cancellation while the task executes has the process supervisor
  stop the task and raises the shutdown interrupt.
\<close>

definition run_cycle :: "cycle_env \<Rightarrow> cancel_point \<Rightarrow> call list" where
  "run_cycle env cancel =
     ClaimWork #
       (if cancel = CancelDuringClaim then []
        else if \<not> task_available env then [Sleep]
        else [PrepareToRunTask, StartReclaim, RunTask] @
          (if cancel = CancelDuringExecute then WorkerShutdownStop # shutdown_interrupt env
           else verify_and_finish env cancel (run_status env)))"

text \<open>The completion reports and the upload calls of a cycle.\<close>

fun is_complete :: "call \<Rightarrow> bool" where
  "is_complete (CompleteTask st) = True"
| "is_complete c = False"

fun is_upload :: "call \<Rightarrow> bool" where
  "is_upload (DoUpload files) = True"
| "is_upload c = False"

section \<open>Verified properties\<close>

subsection \<open>Suffixes and the override table\<close>

lemma endswith_both:
  assumes "endswith p a" "endswith p b" "length a \<le> length b"
  shows "endswith b a"
proof -
  from assms(1) have a: "length a \<le> length p" "drop (length p - length a) p = a"
    by (simp_all add: endswith_def)
  from assms(2) have b: "length b \<le> length p" "drop (length p - length b) p = b"
    by (simp_all add: endswith_def)
  have "drop (length b - length a) b = drop (length b - length a) (drop (length p - length b) p)"
    using b(2) by simp
  also have "\<dots> = drop (length p - length a) p"
    using assms(3) b(1) by simp
  finally show ?thesis using a(2) assms(3) by (simp add: endswith_def)
qed

lemma endswith_excludes:
  assumes "endswith p a" and "\<not> endswith b a" and "length a \<le> length b"
  shows "\<not> endswith p b"
  using assms endswith_both by blast

lemma first_match_xml:
  assumes "endswith path ''.xml''"
  shows "first_matching_extension EXTENSION_TO_MIME_TYPE path = Some (''application/xml'', None)"
  unfolding EXTENSION_TO_MIME_TYPE_def
  by (simp add: assms endswith_excludes[OF assms] endswith_def[of "_ # _"])

lemma first_match_tar_gz:
  assumes "endswith path ''.tar.gz''"
  shows "first_matching_extension EXTENSION_TO_MIME_TYPE path = Some (''application/x-tar'', None)"
  unfolding EXTENSION_TO_MIME_TYPE_def by (simp add: assms)

lemma first_match_tgz:
  assumes "endswith path ''.tgz''"
  shows "first_matching_extension EXTENSION_TO_MIME_TYPE path = Some (''application/x-tar'', None)"
  unfolding EXTENSION_TO_MIME_TYPE_def
  by (simp add: assms endswith_excludes[OF assms] endswith_def[of "_ # _"])

lemma first_match_dmg:
  assumes "endswith path ''.dmg''"
  shows "first_matching_extension EXTENSION_TO_MIME_TYPE path =
           Some (''application/x-apple-diskimage'', None)"
  unfolding EXTENSION_TO_MIME_TYPE_def
  by (simp add: assms endswith_excludes[OF assms] endswith_def[of "_ # _"])

lemma first_match_none:
  "(\<forall>entry \<in> set table. \<not> endswith path (fst entry)) \<Longrightarrow>
     first_matching_extension table path = None"
  by (induction table) auto

text \<open>
  C7. The override table is consulted before the generic guesser: every path ending in
  \<^verbatim>\<open>.xml\<close> is classified \<open>(application/xml, None)\<close> whatever the guesser says,
  \<^verbatim>\<open>build.tar.gz\<close> is \<open>(application/x-tar, None)\<close>, \<^verbatim>\<open>output.log\<close> is
  \<open>(text/plain, None)\<close>; a path that no table entry ends gets the guesser's answer, with
  \<open>application/binary\<close> where the guesser has no content type.
\<close>

theorem guess_content_type_and_encoding_table_first:
  "(\<forall>path. endswith path ''.xml'' \<longrightarrow>
      guess_content_type_and_encoding guess_type path = (''application/xml'', None))
   \<and> guess_content_type_and_encoding guess_type ''build.tar.gz'' = (''application/x-tar'', None)
   \<and> guess_content_type_and_encoding guess_type ''output.log'' = (''text/plain'', None)
   \<and> (\<forall>path. (\<forall>entry \<in> set EXTENSION_TO_MIME_TYPE. \<not> endswith path (fst entry)) \<longrightarrow>
        guess_content_type_and_encoding guess_type path =
          (case fst (guess_type path) of
             None \<Rightarrow> ''application/binary''
           | Some c \<Rightarrow> if c = [] then ''application/binary'' else c,
           snd (guess_type path)))"
proof (intro conjI allI impI)
  fix path assume "endswith path ''.xml''"
  then show "guess_content_type_and_encoding guess_type path = (''application/xml'', None)"
    by (simp add: guess_content_type_and_encoding_def first_match_xml)
next
  show "guess_content_type_and_encoding guess_type ''build.tar.gz'' = (''application/x-tar'', None)"
    by (simp add: guess_content_type_and_encoding_def EXTENSION_TO_MIME_TYPE_def endswith_def)
next
  show "guess_content_type_and_encoding guess_type ''output.log'' = (''text/plain'', None)"
    by (simp add: guess_content_type_and_encoding_def EXTENSION_TO_MIME_TYPE_def endswith_def)
next
  fix path assume "\<forall>entry \<in> set EXTENSION_TO_MIME_TYPE. \<not> endswith path (fst entry)"
  then have "first_matching_extension EXTENSION_TO_MIME_TYPE path = None"
    by (rule first_match_none)
  then show "guess_content_type_and_encoding guess_type path =
          (case fst (guess_type path) of
             None \<Rightarrow> ''application/binary''
           | Some c \<Rightarrow> if c = [] then ''application/binary'' else c,
           snd (guess_type path))"
    by (simp add: guess_content_type_and_encoding_def str_or_def split: prod.splits)
qed

theorem guess_content_type_and_encoding_table_first_witness:
  "endswith ''pom.xml'' ''.xml''
   \<and> guess_content_type_and_encoding (\<lambda>_. (Some ''text/xml'', Some ''gzip'')) ''pom.xml''
       = (''application/xml'', None)
   \<and> \<not> list_ex (\<lambda>entry. endswith ''target.bin'' (fst entry)) EXTENSION_TO_MIME_TYPE
   \<and> guess_content_type_and_encoding (\<lambda>_. (None, None)) ''target.bin''
       = (''application/binary'', None)"
  using guess_content_type_and_encoding_table_first [of "\<lambda>_. (Some ''text/xml'', Some ''gzip'')"]
        guess_content_type_and_encoding_table_first [of "\<lambda>_. (None, None)"]
  by (simp add: endswith_def EXTENSION_TO_MIME_TYPE_def)

subsection \<open>Compression policy\<close>

lemma guess_exempt:
  assumes "endswith path ''.tar.gz'' \<or> endswith path ''.tgz'' \<or> endswith path ''.dmg''"
  shows "snd (guess_content_type_and_encoding guess_type path) = None
         \<and> fst (guess_content_type_and_encoding guess_type path) \<notin> set GZIP_SUPPORTED_CONTENT_TYPE"
  using assms
  by (auto simp: guess_content_type_and_encoding_def GZIP_SUPPORTED_CONTENT_TYPE_def
        first_match_tar_gz first_match_tgz first_match_dmg)

text \<open>
  C2. With the file present (and gzip output differing from its input), the call replaces the
  file's bytes by their gzip compression and returns encoding \<open>gzip\<close> exactly when the guessed
  encoding is \<open>None\<close> and the guessed content type is one of text/plain, application/json,
  text/html, application/xml; otherwise it returns the guess and leaves the file system as it
  was. For every path ending in \<^verbatim>\<open>.tar.gz\<close>, \<^verbatim>\<open>.tgz\<close> or \<^verbatim>\<open>.dmg\<close> nothing is written
  and the encoding is \<open>None\<close>.
\<close>

theorem compress_artifact_if_supported_policy:
  fixes guess_type gz fs artifact_path
  defines "g \<equiv> guess_content_type_and_encoding guess_type artifact_path"
  defines "r \<equiv> compress_artifact_if_supported guess_type gz fs artifact_path"
  defines "eligible \<equiv> snd g = None \<and> fst g \<in> set GZIP_SUPPORTED_CONTENT_TYPE"
  shows "(fs artifact_path = Some content \<and> gz content \<noteq> content \<longrightarrow>
            ((\<exists>ct. r = Inr ((ct, Some ''gzip''), fs(artifact_path \<mapsto> gz content))) \<longleftrightarrow> eligible))
       \<and> (fs artifact_path = Some content \<and> eligible \<longrightarrow>
            r = Inr ((fst g, Some ''gzip''), fs(artifact_path \<mapsto> gz content)))
       \<and> (\<not> eligible \<longrightarrow> r = Inr (g, fs))
       \<and> (endswith artifact_path ''.tar.gz'' \<or> endswith artifact_path ''.tgz''
            \<or> endswith artifact_path ''.dmg'' \<longrightarrow> r = Inr ((fst g, None), fs))"
proof (intro conjI impI)
  assume a: "fs artifact_path = Some content \<and> gz content \<noteq> content"
  show "(\<exists>ct. r = Inr ((ct, Some ''gzip''), fs(artifact_path \<mapsto> gz content))) \<longleftrightarrow> eligible"
  proof (cases eligible)
    case True
    with a show ?thesis
      by (auto simp: r_def g_def eligible_def compress_artifact_if_supported_def split: prod.splits)
  next
    case False
    then have "r = Inr (g, fs)"
      by (auto simp: r_def g_def eligible_def compress_artifact_if_supported_def split: prod.splits)
    moreover have "fs \<noteq> fs(artifact_path \<mapsto> gz content)"
    proof
      assume "fs = fs(artifact_path \<mapsto> gz content)"
      then have "fs artifact_path = (fs(artifact_path \<mapsto> gz content)) artifact_path" by simp
      with a show False by simp
    qed
    ultimately show ?thesis using False by auto
  qed
next
  assume "fs artifact_path = Some content \<and> eligible"
  then show "r = Inr ((fst g, Some ''gzip''), fs(artifact_path \<mapsto> gz content))"
    by (auto simp: r_def g_def eligible_def compress_artifact_if_supported_def split: prod.splits)
next
  assume "\<not> eligible"
  then show "r = Inr (g, fs)"
    by (auto simp: r_def g_def eligible_def compress_artifact_if_supported_def split: prod.splits)
next
  assume "endswith artifact_path ''.tar.gz'' \<or> endswith artifact_path ''.tgz''
            \<or> endswith artifact_path ''.dmg''"
  from guess_exempt[OF this, of guess_type]
  show "r = Inr ((fst g, None), fs)"
    by (auto simp: r_def g_def compress_artifact_if_supported_def split: prod.splits)
qed


theorem compress_artifact_if_supported_policy_witness:
  "[''/a/public/manifest.json'' \<mapsto> ''{}''] ''/a/public/manifest.json'' = Some ''{}''
   \<and> ''gz:{}'' \<noteq> ''{}''
   \<and> compress_artifact_if_supported (\<lambda>_. (Some ''application/json'', None)) (\<lambda>b. ''gz:'' @ b)
         [''/a/public/manifest.json'' \<mapsto> ''{}''] ''/a/public/manifest.json''
       = Inr ((''application/json'', Some ''gzip''), [''/a/public/manifest.json'' \<mapsto> ''gz:{}''])
   \<and> endswith ''/a/public/build.tgz'' ''.tgz''
   \<and> compress_artifact_if_supported (\<lambda>_. (Some ''text/plain'', None)) (\<lambda>b. ''gz:'' @ b)
         [''/a/public/build.tgz'' \<mapsto> ''tarball''] ''/a/public/build.tgz''
       = Inr ((''application/x-tar'', None), [''/a/public/build.tgz'' \<mapsto> ''tarball''])"
  using compress_artifact_if_supported_policy
          [of "[''/a/public/manifest.json'' \<mapsto> ''{}'']" "''/a/public/manifest.json''" "''{}''"
              "\<lambda>b. ''gz:'' @ b" "\<lambda>_. (Some ''application/json'', None)"]
        compress_artifact_if_supported_policy
          [of "[''/a/public/build.tgz'' \<mapsto> ''tarball'']" "''/a/public/build.tgz''" "''tarball''"
              "\<lambda>b. ''gz:'' @ b" "\<lambda>_. (Some ''text/plain'', None)"]
  by (simp add: guess_content_type_and_encoding_def EXTENSION_TO_MIME_TYPE_def endswith_def
        GZIP_SUPPORTED_CONTENT_TYPE_def str_or_def)

subsection \<open>Optional artifacts per task id\<close>

lemma optional_artifacts_loop_lookup:
  "optional_artifacts_loop acc ua t =
     (if list_ex (\<lambda>d. taskId d = t \<and> optional d = JsonBool True) ua
      then Some (dict_get acc t
             @ concat (map paths (filter (\<lambda>d. taskId d = t \<and> optional d = JsonBool True) ua)))
      else acc t)"
proof (induction ua arbitrary: acc)
  case Nil
  show ?case by simp
next
  case (Cons d ua)
  show ?case
    by (auto simp: Cons.IH list_ex_iff add_enumerable_item_to_dict_def dict_get_def
          split: option.splits)
qed

lemma optional_artifacts_loop_append:
  "optional_artifacts_loop acc (ua @ ub) = optional_artifacts_loop (optional_artifacts_loop acc ua) ub"
  by (induction ua arbitrary: acc) simp_all

text \<open>
  C10. The result has one entry per task id that has an optional definition, and the entry
  lists the paths of all optional definitions of that task id, in the order of the
  definitions; a definition whose \<open>optional\<close> is not \<open>True\<close> adds nothing. Appending one
  more optional definition extends the entry of its task id at the end and keeps what was
  there.
\<close>

theorem get_optional_artifacts_per_task_id_accumulates:
  "get_optional_artifacts_per_task_id upstream_artifacts task_id =
     (if list_ex (\<lambda>d. taskId d = task_id \<and> optional d = JsonBool True) upstream_artifacts
      then Some (concat (map paths
             (filter (\<lambda>d. taskId d = task_id \<and> optional d = JsonBool True) upstream_artifacts)))
      else None)
   \<and> (optional d = JsonBool True \<longrightarrow>
        get_optional_artifacts_per_task_id (upstream_artifacts @ [d]) =
          (get_optional_artifacts_per_task_id upstream_artifacts)
            (taskId d \<mapsto>
               dict_get (get_optional_artifacts_per_task_id upstream_artifacts) (taskId d) @ paths d))
   \<and> (optional d \<noteq> JsonBool True \<longrightarrow>
        get_optional_artifacts_per_task_id (upstream_artifacts @ [d]) =
          get_optional_artifacts_per_task_id upstream_artifacts)"
  by (simp add: get_optional_artifacts_per_task_id_def optional_artifacts_loop_lookup
        optional_artifacts_loop_append add_enumerable_item_to_dict_def dict_get_def)

theorem get_optional_artifacts_per_task_id_accumulates_witness:
  "get_optional_artifacts_per_task_id
     [\<lparr>taskId = ''T1'', paths = [''a'', ''b''], optional = JsonBool True\<rparr>,
      \<lparr>taskId = ''T2'', paths = [''x''], optional = JsonBool True\<rparr>,
      \<lparr>taskId = ''T1'', paths = [''c''], optional = Absent\<rparr>] ''T1'' = Some [''a'', ''b'']
   \<and> optional \<lparr>taskId = ''T1'', paths = [''d''], optional = JsonBool True\<rparr> = JsonBool True
   \<and> get_optional_artifacts_per_task_id
     ([\<lparr>taskId = ''T1'', paths = [''a'', ''b''], optional = JsonBool True\<rparr>,
      \<lparr>taskId = ''T2'', paths = [''x''], optional = JsonBool True\<rparr>,
      \<lparr>taskId = ''T1'', paths = [''c''], optional = Absent\<rparr>]
      @ [\<lparr>taskId = ''T1'', paths = [''d''], optional = JsonBool True\<rparr>]) ''T1''
       = Some [''a'', ''b'', ''d'']
   \<and> optional \<lparr>taskId = ''T1'', paths = [''e''], optional = JsonBool False\<rparr> \<noteq> JsonBool True
   \<and> get_optional_artifacts_per_task_id
     ([\<lparr>taskId = ''T1'', paths = [''a'', ''b''], optional = JsonBool True\<rparr>]
      @ [\<lparr>taskId = ''T1'', paths = [''e''], optional = JsonBool False\<rparr>]) ''T1''
       = Some [''a'', ''b'']"
  using get_optional_artifacts_per_task_id_accumulates
     [of "[\<lparr>taskId = ''T1'', paths = [''a'', ''b''], optional = JsonBool True\<rparr>,
      \<lparr>taskId = ''T2'', paths = [''x''], optional = JsonBool True\<rparr>,
      \<lparr>taskId = ''T1'', paths = [''c''], optional = Absent\<rparr>]" "''T1''"
      "\<lparr>taskId = ''T1'', paths = [''d''], optional = JsonBool True\<rparr>"]
    get_optional_artifacts_per_task_id_accumulates
     [of "[\<lparr>taskId = ''T1'', paths = [''a'', ''b''], optional = JsonBool True\<rparr>]" "''T1''"
      "\<lparr>taskId = ''T1'', paths = [''e''], optional = JsonBool False\<rparr>"]
  by (simp add: dict_get_def)

subsection \<open>Resolving upstream artifacts\<close>

lemma add_to_dict_of:
  "items \<noteq> [] \<Longrightarrow>
     add_enumerable_item_to_dict (dict_of f) key items = dict_of (f(key := f key @ items))"
  by (rule ext) (simp add: add_enumerable_item_to_dict_def dict_of_def)

lemma find_first:
  "\<not> list_ex P pre \<Longrightarrow> P x \<Longrightarrow> List.find P (pre @ x # post) = Some x"
  by (induction pre) auto

lemma find_none: "\<not> list_ex P xs \<Longrightarrow> List.find P xs = None"
  by (induction xs) auto

lemma find_append_case:
  "List.find P (xs @ ys) = (case List.find P xs of None \<Rightarrow> List.find P ys | Some x \<Rightarrow> Some x)"
  by (induction xs) auto

lemma find_map_Pair:
  "List.find P (map (Pair t) ps) = map_option (Pair t) (List.find (\<lambda>p. P (t, p)) ps)"
  by (induction ps) auto

lemma upstream_paths_loop_char:
  "upstream_paths_loop cwd exists ctx opt t (dict_of f, dict_of g) ps =
     (case List.find (\<lambda>p. \<not> exists (get_single_upstream_artifact_full_path cwd ctx t p)
                          \<and> p \<notin> set (dict_get opt t)) ps of
        Some p \<Rightarrow>
          Inl (ScriptWorkerTaskException
                 (''upstream artifact with path: ''
                    @ get_single_upstream_artifact_full_path cwd ctx t p @ '', does not exist''))
      | None \<Rightarrow>
          Inr (dict_of (f(t := f t @ map (get_single_upstream_artifact_full_path cwd ctx t)
                                   (filter (\<lambda>p. exists (get_single_upstream_artifact_full_path cwd ctx t p)) ps))),
               dict_of (g(t := g t @ filter (\<lambda>p. \<not> exists (get_single_upstream_artifact_full_path cwd ctx t p)) ps))))"
proof (induction ps arbitrary: f g)
  case Nil
  show ?case by simp
next
  case (Cons p ps)
  show ?case
  proof (cases "exists (get_single_upstream_artifact_full_path cwd ctx t p)")
    case True
    then show ?thesis
      by (auto simp: get_and_check_single_upstream_artifact_full_path_def add_to_dict_of Cons.IH
            fun_upd_def split: option.splits intro!: arg_cong[where f=dict_of])
  next
    case False
    then show ?thesis
      by (auto simp: get_and_check_single_upstream_artifact_full_path_def add_to_dict_of Cons.IH
            fun_upd_def split: option.splits intro!: arg_cong[where f=dict_of])
  qed
qed


lemma filter_map_Pair:
  "filter (\<lambda>(t', p). t' = k \<and> Q t' p) (map (Pair t) ps) =
     (if t = k then map (Pair t) (filter (Q t) ps) else [])"
  by (induction ps) auto

lemma upstream_definitions_loop_char:
  "upstream_definitions_loop cwd exists ctx opt (dict_of f, dict_of g) defs =
     (case List.find (\<lambda>(t, p). \<not> exists (get_single_upstream_artifact_full_path cwd ctx t p)
                          \<and> p \<notin> set (dict_get opt t))
             (concat (map (\<lambda>(t, ps). map (Pair t) ps) defs)) of
        Some (t, p) \<Rightarrow>
          Inl (ScriptWorkerTaskException
                 (''upstream artifact with path: ''
                    @ get_single_upstream_artifact_full_path cwd ctx t p @ '', does not exist''))
      | None \<Rightarrow>
          Inr (dict_of (\<lambda>k. f k @ map (\<lambda>(t, p). get_single_upstream_artifact_full_path cwd ctx t p)
                  (filter (\<lambda>(t, p). t = k \<and> exists (get_single_upstream_artifact_full_path cwd ctx t p))
                     (concat (map (\<lambda>(t, ps). map (Pair t) ps) defs)))),
               dict_of (\<lambda>k. g k @ map snd
                  (filter (\<lambda>(t, p). t = k \<and> \<not> exists (get_single_upstream_artifact_full_path cwd ctx t p))
                     (concat (map (\<lambda>(t, ps). map (Pair t) ps) defs))))))"
proof (induction defs arbitrary: f g)
  case Nil
  show ?case by simp
next
  case (Cons d defs)
  obtain t ps where d: "d = (t, ps)" by (cases d)
  show ?case
  proof (cases "List.find (\<lambda>p. \<not> exists (get_single_upstream_artifact_full_path cwd ctx t p)
                          \<and> p \<notin> set (dict_get opt t)) ps")
    case (Some p)
    then show ?thesis
      by (simp add: d upstream_paths_loop_char find_append_case find_map_Pair)
  next
    case None
    then show ?thesis
      by (auto simp: d upstream_paths_loop_char find_append_case find_map_Pair Cons.IH
            filter_map_Pair comp_def fun_upd_def
            split: option.splits intro!: arg_cong[where f=dict_of])
  qed
qed


lemma dict_of_empty: "dict_of (\<lambda>key. []) = Map.empty"
  by (simp add: dict_of_def)

lemma marked_optional_iff:
  "p \<in> set (dict_get (get_optional_artifacts_per_task_id ua) t) \<longleftrightarrow>
     list_ex (\<lambda>d. taskId d = t \<and> optional d = JsonBool True \<and> p \<in> set (paths d)) ua"
  by (auto simp: get_optional_artifacts_per_task_id_def optional_artifacts_loop_lookup dict_get_def
        list_ex_iff)

lemma get_upstream_artifacts_char:
  "get_upstream_artifacts_full_paths_per_task_id cwd exists ctx =
     (case List.find (\<lambda>(t, p). \<not> exists (get_single_upstream_artifact_full_path cwd ctx t p)
                \<and> \<not> list_ex (\<lambda>d. taskId d = t \<and> optional d = JsonBool True \<and> p \<in> set (paths d))
                      (upstreamArtifacts (claimed_task ctx)))
             (declared_pairs (upstreamArtifacts (claimed_task ctx))) of
        Some (t, p) \<Rightarrow>
          Inl (ScriptWorkerTaskException
                 (''upstream artifact with path: ''
                    @ get_single_upstream_artifact_full_path cwd ctx t p @ '', does not exist''))
      | None \<Rightarrow>
          Inr (dict_of (\<lambda>k. map (\<lambda>(t, p). get_single_upstream_artifact_full_path cwd ctx t p)
                  (filter (\<lambda>(t, p). t = k \<and> exists (get_single_upstream_artifact_full_path cwd ctx t p))
                     (declared_pairs (upstreamArtifacts (claimed_task ctx))))),
               dict_of (\<lambda>k. map snd
                  (filter (\<lambda>(t, p). t = k \<and> \<not> exists (get_single_upstream_artifact_full_path cwd ctx t p))
                     (declared_pairs (upstreamArtifacts (claimed_task ctx)))))))"
proof -
  have e: "(Map.empty, Map.empty) = (dict_of (\<lambda>key. []), dict_of (\<lambda>key. []))"
    by (simp add: dict_of_empty)
  have flat: "concat (map (\<lambda>(t, ps). map (Pair t) ps)
                  (map (\<lambda>d. (taskId d, paths d)) (upstreamArtifacts (claimed_task ctx))))
              = declared_pairs (upstreamArtifacts (claimed_task ctx))"
    by (simp add: declared_pairs_def comp_def)
  show ?thesis
    unfolding get_upstream_artifacts_full_paths_per_task_id_def Let_def e
      upstream_definitions_loop_char flat append_Nil marked_optional_iff
    by (rule refl)
qed

text \<open>
  C5. A declared pair is marked optional when a definition with \<open>optional\<close> \<open>True\<close> for its
  task id lists its path; it is fatal when its file is missing and it is not marked optional.
  At the first fatal pair, in the order of the declarations, the resolution raises a
  \<open>ScriptWorkerTaskException\<close> whose message names the missing full path, whatever follows;
  that exception is in neither retry set of this module. If no declared pair is fatal the
  resolution returns two dictionaries keyed by task id: the full paths of the files that
  exist, and the relative paths of the missing, optional ones.
\<close>

theorem get_upstream_artifacts_full_paths_per_task_id_missing:
  fixes cwd exists ctx
  defines "full \<equiv> get_single_upstream_artifact_full_path cwd ctx"
  defines "ua \<equiv> upstreamArtifacts (claimed_task ctx)"
  defines "fatal \<equiv> \<lambda>(t, p). \<not> exists (full t p)
             \<and> \<not> list_ex (\<lambda>d. taskId d = t \<and> optional d = JsonBool True \<and> p \<in> set (paths d)) ua"
  shows "(declared_pairs ua = pre @ (t, p) # post \<and> \<not> list_ex fatal pre \<and> fatal (t, p) \<longrightarrow>
            get_upstream_artifacts_full_paths_per_task_id cwd exists ctx =
              Inl (ScriptWorkerTaskException
                     (''upstream artifact with path: '' @ full t p @ '', does not exist'')))
       \<and> (\<not> list_ex fatal (declared_pairs ua) \<longrightarrow>
            get_upstream_artifacts_full_paths_per_task_id cwd exists ctx =
              Inr (dict_of (\<lambda>k. map (\<lambda>(t, p). full t p)
                              (filter (\<lambda>(t, p). t = k \<and> exists (full t p)) (declared_pairs ua))),
                   dict_of (\<lambda>k. map snd
                              (filter (\<lambda>(t, p). t = k \<and> \<not> exists (full t p)) (declared_pairs ua)))))
       \<and> \<not> create_artifact_retry_exceptions (ScriptWorkerTaskException msg)
       \<and> \<not> download_retry_exceptions (ScriptWorkerTaskException msg)"
proof (intro conjI impI)
  assume a: "declared_pairs ua = pre @ (t, p) # post \<and> \<not> list_ex fatal pre \<and> fatal (t, p)"
  then have "List.find fatal (declared_pairs ua) = Some (t, p)"
    by (simp add: find_first)
  then show "get_upstream_artifacts_full_paths_per_task_id cwd exists ctx =
              Inl (ScriptWorkerTaskException
                     (''upstream artifact with path: '' @ full t p @ '', does not exist''))"
    unfolding get_upstream_artifacts_char fatal_def full_def ua_def by simp
next
  assume "\<not> list_ex fatal (declared_pairs ua)"
  then have "List.find fatal (declared_pairs ua) = None"
    by (rule find_none)
  then show "get_upstream_artifacts_full_paths_per_task_id cwd exists ctx =
              Inr (dict_of (\<lambda>k. map (\<lambda>(t, p). full t p)
                              (filter (\<lambda>(t, p). t = k \<and> exists (full t p)) (declared_pairs ua))),
                   dict_of (\<lambda>k. map snd
                              (filter (\<lambda>(t, p). t = k \<and> \<not> exists (full t p)) (declared_pairs ua))))"
    unfolding get_upstream_artifacts_char fatal_def full_def ua_def by simp
qed simp_all


lemmas path_eval =
  get_single_upstream_artifact_full_path_def abspath_def normpath_def os_path_join_def
  join_step_def startswith_def endswith_def split_sep_def initial_slashes_def normpath_step_def
  Let_def

theorem get_upstream_artifacts_full_paths_per_task_id_missing_witness:
  "get_upstream_artifacts_full_paths_per_task_id ''/'' (\<lambda>path. False)
      \<lparr>work_dir = ''/w'', artifact_dir = ''/a'',
        claimed_task = \<lparr>dependencies = [], taskGroupId = ''G'',
          upstreamArtifacts = [\<lparr>taskId = ''T1'', paths = [''a.txt''], optional = JsonBool False\<rparr>]\<rparr>\<rparr>
     = Inl (ScriptWorkerTaskException ''upstream artifact with path: /w/cot/T1/a.txt, does not exist'')
   \<and> get_upstream_artifacts_full_paths_per_task_id ''/'' (\<lambda>path. path = ''/w/cot/T1/a.txt'')
      \<lparr>work_dir = ''/w'', artifact_dir = ''/a'',
        claimed_task = \<lparr>dependencies = [], taskGroupId = ''G'',
          upstreamArtifacts = [\<lparr>taskId = ''T1'', paths = [''a.txt'', ''b.txt''], optional = JsonBool True\<rparr>]\<rparr>\<rparr>
     = Inr (dict_of (\<lambda>k. if k = ''T1'' then [''/w/cot/T1/a.txt''] else []),
            dict_of (\<lambda>k. if k = ''T1'' then [''b.txt''] else []))"
proof -
  let ?c1 = "\<lparr>work_dir = ''/w'', artifact_dir = ''/a'',
        claimed_task = \<lparr>dependencies = [], taskGroupId = ''G'',
          upstreamArtifacts = [\<lparr>taskId = ''T1'', paths = [''a.txt''], optional = JsonBool False\<rparr>]\<rparr>\<rparr>"
  let ?c2 = "\<lparr>work_dir = ''/w'', artifact_dir = ''/a'',
        claimed_task = \<lparr>dependencies = [], taskGroupId = ''G'',
          upstreamArtifacts = [\<lparr>taskId = ''T1'', paths = [''a.txt'', ''b.txt''], optional = JsonBool True\<rparr>]\<rparr>\<rparr>"
  have f1: "get_single_upstream_artifact_full_path ''/'' ?c1 ''T1'' ''a.txt'' = ''/w/cot/T1/a.txt''"
    by (simp add: path_eval)
  have f2: "get_single_upstream_artifact_full_path ''/'' ?c2 ''T1'' ''a.txt'' = ''/w/cot/T1/a.txt''"
    by (simp add: path_eval)
  have f3: "get_single_upstream_artifact_full_path ''/'' ?c2 ''T1'' ''b.txt'' = ''/w/cot/T1/b.txt''"
    by (simp add: path_eval)
  have a: "get_upstream_artifacts_full_paths_per_task_id ''/'' (\<lambda>path. False) ?c1
     = Inl (ScriptWorkerTaskException ''upstream artifact with path: /w/cot/T1/a.txt, does not exist'')"
    using get_upstream_artifacts_full_paths_per_task_id_missing
            [of ?c1 "[]" "''T1''" "''a.txt''" "[]" "\<lambda>path. False" "''/''"]
    by (simp add: declared_pairs_def f1)
  have b: "get_upstream_artifacts_full_paths_per_task_id ''/'' (\<lambda>path. path = ''/w/cot/T1/a.txt'') ?c2
     = Inr (dict_of (\<lambda>k. if k = ''T1'' then [''/w/cot/T1/a.txt''] else []),
            dict_of (\<lambda>k. if k = ''T1'' then [''b.txt''] else []))"
    using get_upstream_artifacts_full_paths_per_task_id_missing
            [of ?c2 "[]" "''T1''" "''a.txt''" "[]" "\<lambda>path. path = ''/w/cot/T1/a.txt''" "''/''"]
    by (auto simp: declared_pairs_def f2 f3 intro!: arg_cong[where f=dict_of])
  from a b show ?thesis by simp
qed

subsection \<open>Path normalisation\<close>

lemma split_acc_append:
  "split_acc cur (a @ CHR ''/'' # b) = split_acc cur a @ split_acc [] b"
  by (induction a arbitrary: cur) simp_all

lemma split_acc_plain: "CHR ''/'' \<notin> set s \<Longrightarrow> split_acc cur s = [cur @ s]"
  by (induction s arbitrary: cur) auto

lemma sep_join_append:
  "xs \<noteq> [] \<Longrightarrow> ys \<noteq> [] \<Longrightarrow> sep_join (xs @ ys) = sep_join xs @ ''/'' @ sep_join ys"
proof (induction xs rule: sep_join.induct)
  case 1
  then show ?case by simp
next
  case (2 c)
  then show ?case by (cases ys) simp_all
next
  case (3 c d cs)
  then show ?case by simp
qed

lemma normpath_step_keeps_dotdot:
  "''..'' \<in> set st \<Longrightarrow> ''..'' \<in> set (normpath_step init st c)"
proof -
  assume a: "''..'' \<in> set st"
  have "''..'' \<in> set (butlast st)" if "last st \<noteq> ''..''"
    using a that by (metis append_butlast_last_id empty_iff empty_set insert_iff
        list.simps(15) rotate1.simps(2) set_rotate1)
  with a show ?thesis by (auto simp: normpath_step_def)
qed

lemma foldl_normpath_step_keeps_dotdot:
  "''..'' \<in> set st \<Longrightarrow> ''..'' \<in> set (foldl (normpath_step init) st cs)"
  by (induction cs arbitrary: st) (simp_all add: normpath_step_keeps_dotdot)

lemma normpath_step_under:
  assumes "''..'' \<notin> set (normpath_step 0 st c)"
  shows "normpath_step init (base @ st) c = base @ normpath_step 0 st c"
proof (cases "c = ''..''")
  case True
  with assms have ne: "st \<noteq> []" by (auto simp: normpath_step_def)
  with assms True have l: "last st \<noteq> ''..''" by (auto simp: normpath_step_def)
  from True ne l show ?thesis by (simp add: normpath_step_def butlast_append)
next
  case False
  then show ?thesis by (simp add: normpath_step_def)
qed

lemma foldl_normpath_step_under:
  "''..'' \<notin> set (foldl (normpath_step 0) st cs) \<Longrightarrow>
     foldl (normpath_step init) (base @ st) cs = base @ foldl (normpath_step 0) st cs"
proof (induction cs arbitrary: st)
  case Nil
  show ?case by simp
next
  case (Cons c cs)
  from Cons.prems have "''..'' \<notin> set (normpath_step 0 st c)"
    using foldl_normpath_step_keeps_dotdot[of "normpath_step 0 st c" 0 cs] by auto
  then have "normpath_step init (base @ st) c = base @ normpath_step 0 st c"
    by (rule normpath_step_under)
  with Cons show ?case by simp
qed


lemma endswith_append: "endswith (pre @ suf) suf"
  by (simp add: endswith_def)

lemma initial_slashes_append:
  "3 \<le> length F \<Longrightarrow> initial_slashes (F @ rest) = initial_slashes F"
  by (simp add: initial_slashes_def startswith_def)

lemma normpath_under:
  assumes Z: "Z = [] \<or> (\<exists>Z0. Z = Z0 @ ''/'')"
    and tid: "task_id \<noteq> []" "CHR ''/'' \<notin> set task_id" "task_id \<noteq> ''.''" "task_id \<noteq> ''..''"
    and nodd: "''..'' \<notin> set (foldl (normpath_step 0) [] (split_sep path))"
  shows "normpath (Z @ ''cot/'' @ task_id @ ''/'' @ path) =
           normpath (Z @ ''cot/'' @ task_id)
             @ (if foldl (normpath_step 0) [] (split_sep path) = [] then []
                else ''/'' @ sep_join (foldl (normpath_step 0) [] (split_sep path)))
         \<and> endswith (normpath (Z @ ''cot/'' @ task_id)) (''cot/'' @ task_id)"
proof -
  define F where "F = Z @ ''cot/'' @ task_id"
  define R where "R = foldl (normpath_step 0) [] (split_sep path)"
  define i where "i = initial_slashes F"
  have F_len: "3 \<le> length F" by (simp add: F_def)
  have init: "initial_slashes (F @ CHR ''/'' # path) = i"
    unfolding i_def using F_len initial_slashes_append[of F "''/'' @ path"] by simp
  from Z obtain Zs where Zs: "split_sep F = Zs @ [''cot'', task_id]"
  proof
    assume "Z = []"
    then have "split_sep F = [] @ [''cot'', task_id]"
      using split_acc_append[of "[]" "''cot''" task_id] tid(2)
      by (simp add: F_def split_sep_def split_acc_plain)
    then show ?thesis using that by blast
  next
    assume "\<exists>Z0. Z = Z0 @ ''/''"
    then obtain Z0 where "Z = Z0 @ ''/''" ..
    then have "split_sep F = split_sep Z0 @ [''cot'', task_id]"
      using split_acc_append[of "[]" Z0 "''cot/'' @ task_id"]
            split_acc_append[of "[]" "''cot''" task_id] tid(2)
      by (simp add: F_def split_sep_def split_acc_plain)
    then show ?thesis using that by blast
  qed
  have split_res: "split_sep (F @ CHR ''/'' # path) = (Zs @ [''cot'', task_id]) @ split_sep path"
    using split_acc_append[of "[]" F path] Zs by (simp add: split_sep_def)
  define S0 where "S0 = foldl (normpath_step i) [] Zs"
  define K where "K = S0 @ [''cot'', task_id]"
  have root_comps: "foldl (normpath_step i) [] (split_sep F) = K"
    unfolding Zs K_def S0_def using tid by (simp add: normpath_step_def)
  have res_comps: "foldl (normpath_step i) [] (split_sep (F @ CHR ''/'' # path)) = K @ R"
  proof -
    have "foldl (normpath_step i) [] (split_sep (F @ CHR ''/'' # path))
            = foldl (normpath_step i) (K @ []) (split_sep path)"
      unfolding split_res foldl_append using root_comps by (simp add: Zs)
    also have "\<dots> = K @ R"
      unfolding R_def using nodd by (rule foldl_normpath_step_under)
    finally show ?thesis .
  qed
  have K_join: "sep_join K = sep_join (S0 @ [''cot'']) @ ''/'' @ task_id"
    using sep_join_append[of "S0 @ [''cot'']" "[task_id]"] by (simp add: K_def)
  have K_ne: "sep_join K \<noteq> []"
    using tid(1) by (simp add: K_join)
  have F_ne: "F \<noteq> []" using F_len by auto
  have root: "normpath F = replicate i (CHR ''/'') @ sep_join K"
    using K_ne F_ne by (simp add: normpath_def root_comps Let_def i_def[symmetric])
  have res: "normpath (F @ CHR ''/'' # path) =
               replicate i (CHR ''/'') @ sep_join K @ (if R = [] then [] else ''/'' @ sep_join R)"
  proof (cases "R = []")
    case True
    then show ?thesis
      using K_ne res_comps by (simp add: normpath_def Let_def init)
  next
    case False
    moreover have "K \<noteq> []" by (simp add: K_def)
    ultimately have "sep_join (K @ R) = sep_join K @ ''/'' @ sep_join R"
      by (simp add: sep_join_append)
    with False show ?thesis
      using K_ne res_comps by (simp add: normpath_def Let_def init)
  qed
  have cot_join: "\<exists>pre. sep_join (S0 @ [''cot'']) = pre @ ''cot''"
  proof (cases "S0 = []")
    case True
    then show ?thesis by simp
  next
    case False
    then have "sep_join (S0 @ [''cot'']) = (sep_join S0 @ ''/'') @ ''cot''"
      by (simp add: sep_join_append)
    then show ?thesis by blast
  qed
  then obtain pre where "sep_join (S0 @ [''cot'']) = pre @ ''cot''" ..
  then have "normpath F = (replicate i (CHR ''/'') @ pre) @ (''cot/'' @ task_id)"
    by (simp add: root K_join)
  then have e: "endswith (normpath F) (''cot/'' @ task_id)"
    using endswith_append[of "replicate i (CHR ''/'') @ pre" "''cot/'' @ task_id"] by simp
  have concl: "normpath (F @ CHR ''/'' # path) =
                 normpath F @ (if R = [] then [] else ''/'' @ sep_join R)
               \<and> endswith (normpath F) (''cot/'' @ task_id)"
    using root res e by simp
  show ?thesis
    using concl unfolding R_def F_def by simp
qed


lemma endswith_slash: "endswith s ''/'' \<Longrightarrow> \<exists>z. s = z @ ''/''"
proof -
  assume "endswith s ''/''"
  then have "drop (length s - 1) s = ''/''" by (simp add: endswith_def)
  then have "s = take (length s - 1) s @ ''/''" by (metis append_take_drop_id)
  then show ?thesis ..
qed

lemma not_endswith_slash: "s \<noteq> [] \<Longrightarrow> CHR ''/'' \<notin> set s \<Longrightarrow> \<not> endswith (pre @ s) ''/''"
proof
  assume a: "s \<noteq> []" "CHR ''/'' \<notin> set s" and "endswith (pre @ s) ''/''"
  then obtain z where "pre @ s = z @ ''/''" using endswith_slash by blast
  then have "last (pre @ s) = CHR ''/''" by simp
  with a(1) have "last s = CHR ''/''" by simp
  with a show False using last_in_set by metis
qed

lemma join_dir:
  "\<exists>D. (D = [] \<or> (\<exists>D0. D = D0 @ ''/'')) \<and> (\<forall>b. \<not> startswith b ''/'' \<longrightarrow> join_step a b = D @ b)"
proof (cases "a = [] \<or> endswith a ''/''")
  case True
  then have "a = [] \<or> (\<exists>D0. a = D0 @ ''/'')" using endswith_slash by blast
  moreover from True have "\<forall>b. \<not> startswith b ''/'' \<longrightarrow> join_step a b = a @ b"
    by (simp add: join_step_def)
  ultimately show ?thesis by blast
next
  case False
  then have "\<forall>b. \<not> startswith b ''/'' \<longrightarrow> join_step a b = (a @ ''/'') @ b"
    by (simp add: join_step_def)
  then show ?thesis by blast
qed

lemma startswith_append: "s \<noteq> [] \<Longrightarrow> startswith (s @ t) ''/'' = startswith s ''/''"
  by (cases s) (simp_all add: startswith_def)

lemma plain_not_absolute: "CHR ''/'' \<notin> set s \<Longrightarrow> \<not> startswith s ''/''"
  by (cases s) (auto simp: startswith_def)

lemma upstream_path_shape:
  assumes tid: "task_id \<noteq> []" "CHR ''/'' \<notin> set task_id"
    and rel: "\<not> startswith path ''/''"
  shows "\<exists>Z. (Z = [] \<or> (\<exists>Z0. Z = Z0 @ ''/''))
           \<and> abspath cwd (os_path_join wd [''cot'', task_id]) = normpath (Z @ ''cot/'' @ task_id)
           \<and> abspath cwd (os_path_join wd [''cot'', task_id, path])
               = normpath (Z @ ''cot/'' @ task_id @ ''/'' @ path)"
proof -
  obtain W where W: "W = [] \<or> (\<exists>W0. W = W0 @ ''/'')"
      and Wj: "\<And>b. \<not> startswith b ''/'' \<Longrightarrow> join_step wd b = W @ b"
    using join_dir[of wd] by blast
  obtain C where C: "C = [] \<or> (\<exists>C0. C = C0 @ ''/'')"
      and Cj: "\<And>b. \<not> startswith b ''/'' \<Longrightarrow> join_step cwd b = C @ b"
    using join_dir[of cwd] by blast
  define P where "P = W @ ''cot/'' @ task_id"
  define J where "J = P @ ''/'' @ path"
  have cot: "join_step wd ''cot'' = W @ ''cot''"
    by (rule Wj) (simp add: startswith_def)
  have n1: "\<not> endswith (W @ ''cot'') ''/''"
    by (rule not_endswith_slash) simp_all
  have P: "join_step (W @ ''cot'') task_id = P"
    using n1 plain_not_absolute[OF tid(2)] by (simp add: join_step_def P_def)
  have n2: "\<not> endswith P ''/''"
    unfolding P_def using not_endswith_slash[OF tid, of "W @ ''cot/''"] by simp
  have P_ne: "P \<noteq> []" by (simp add: P_def)
  have Jeq: "join_step P path = J"
    using n2 rel P_ne by (simp add: join_step_def J_def)
  have j2: "os_path_join wd [''cot'', task_id] = P"
    by (simp add: os_path_join_def cot P)
  have j3: "os_path_join wd [''cot'', task_id, path] = J"
    by (simp add: os_path_join_def cot P Jeq)
  have abs_J: "startswith J ''/'' = startswith P ''/''"
    unfolding J_def using P_ne by (rule startswith_append)
  show ?thesis
  proof (cases "startswith P ''/''")
    case True
    then have "abspath cwd P = normpath (W @ ''cot/'' @ task_id)"
      and "abspath cwd J = normpath (W @ ''cot/'' @ task_id @ ''/'' @ path)"
      using abs_J by (simp_all add: abspath_def P_def J_def)
    with W show ?thesis unfolding j2 j3 by blast
  next
    case False
    then have "abspath cwd P = normpath ((C @ W) @ ''cot/'' @ task_id)"
      and "abspath cwd J = normpath ((C @ W) @ ''cot/'' @ task_id @ ''/'' @ path)"
      using abs_J Cj[of P] Cj[of J] by (simp_all add: abspath_def os_path_join_def P_def J_def)
    moreover from W C have "C @ W = [] \<or> (\<exists>Z0. C @ W = Z0 @ ''/'')"
      by (metis append.assoc append_Nil2)
    ultimately show ?thesis unfolding j2 j3 by blast
  qed
qed

text \<open>
  C1 as amended. The function rejects nothing; it returns the joined and normalised path. When
  the task id is one path component (not empty, without a slash, neither \<open>.\<close> nor \<open>..\<close>) and
  the relative path does not start with a slash and, normalised on its own, keeps no \<open>..\<close>
  component, the result is the root \<open>abspath(work_dir/cot/task_id)\<close> or a path under it, and
  that root ends in \<open>cot/task_id\<close>.
\<close>

theorem get_single_upstream_artifact_full_path_under_root:
  assumes "task_id \<noteq> []" and "CHR ''/'' \<notin> set task_id"
    and "task_id \<noteq> ''.''" and "task_id \<noteq> ''..''"
    and "\<not> startswith path ''/''"
    and "''..'' \<notin> set (foldl (normpath_step 0) [] (split_sep path))"
  shows "(get_single_upstream_artifact_full_path cwd ctx task_id path
            = abspath cwd (os_path_join (work_dir ctx) [''cot'', task_id])
          \<or> startswith (get_single_upstream_artifact_full_path cwd ctx task_id path)
               (abspath cwd (os_path_join (work_dir ctx) [''cot'', task_id]) @ ''/''))
       \<and> endswith (abspath cwd (os_path_join (work_dir ctx) [''cot'', task_id])) (''cot/'' @ task_id)"
proof -
  obtain Z where Z: "Z = [] \<or> (\<exists>Z0. Z = Z0 @ ''/'')"
    and root: "abspath cwd (os_path_join (work_dir ctx) [''cot'', task_id])
                 = normpath (Z @ ''cot/'' @ task_id)"
    and res: "abspath cwd (os_path_join (work_dir ctx) [''cot'', task_id, path])
                 = normpath (Z @ ''cot/'' @ task_id @ ''/'' @ path)"
    using upstream_path_shape[OF assms(1,2,5), of cwd "work_dir ctx"] by blast
  note u = normpath_under[OF Z assms(1,2,3,4,6)]
  define r where "r = normpath (Z @ ''cot/'' @ task_id)"
  define R where "R = foldl (normpath_step 0) [] (split_sep path)"
  from u have a: "normpath (Z @ ''cot/'' @ task_id @ ''/'' @ path)
                    = r @ (if R = [] then [] else ''/'' @ sep_join R)"
    and b: "endswith r (''cot/'' @ task_id)"
    unfolding r_def R_def by blast+
  have "normpath (Z @ ''cot/'' @ task_id @ ''/'' @ path) = r
        \<or> startswith (normpath (Z @ ''cot/'' @ task_id @ ''/'' @ path)) (r @ ''/'')"
    unfolding a by (simp add: startswith_def)
  with b show ?thesis
    unfolding get_single_upstream_artifact_full_path_def root res r_def by blast
qed


theorem get_single_upstream_artifact_full_path_under_root_witness:
  "''T1'' \<noteq> [] \<and> CHR ''/'' \<notin> set ''T1'' \<and> ''T1'' \<noteq> ''.'' \<and> ''T1'' \<noteq> ''..''
   \<and> \<not> startswith ''public/./tmp/../build/target.zip'' ''/''
   \<and> ''..'' \<notin> set (foldl (normpath_step 0) [] (split_sep ''public/./tmp/../build/target.zip''))
   \<and> get_single_upstream_artifact_full_path ''/home/worker''
         \<lparr>work_dir = ''/w'', artifact_dir = ''/a'',
           claimed_task = \<lparr>dependencies = [], taskGroupId = ''G'', upstreamArtifacts = []\<rparr>\<rparr>
         ''T1'' ''public/./tmp/../build/target.zip'' = ''/w/cot/T1/public/build/target.zip''
   \<and> startswith ''/w/cot/T1/public/build/target.zip'' (''/w/cot/T1'' @ ''/'')"
  using get_single_upstream_artifact_full_path_under_root
          [of "''T1''" "''public/./tmp/../build/target.zip''" "''/home/worker''"
              "\<lparr>work_dir = ''/w'', artifact_dir = ''/a'',
                claimed_task = \<lparr>dependencies = [], taskGroupId = ''G'', upstreamArtifacts = []\<rparr>\<rparr>"]
  by (simp add: path_eval)

text \<open>
  C1 as stated fails: with work directory \<^verbatim>\<open>/w\<close>, task id \<^verbatim>\<open>T1\<close> and relative path
  \<^verbatim>\<open>../../etc/passwd\<close> the function returns \<^verbatim>\<open>/w/etc/passwd\<close>, which is not under the root
  \<^verbatim>\<open>/w/cot/T1\<close>, and the checking variant hands that path to \<^verbatim>\<open>os.path.exists\<close> and
  returns it.
\<close>

theorem get_single_upstream_artifact_full_path_traversal:
  "get_single_upstream_artifact_full_path ''/home/worker''
      \<lparr>work_dir = ''/w'', artifact_dir = ''/a'',
        claimed_task = \<lparr>dependencies = [], taskGroupId = ''G'', upstreamArtifacts = []\<rparr>\<rparr>
      ''T1'' ''../../etc/passwd'' = ''/w/etc/passwd''
   \<and> abspath ''/home/worker'' (os_path_join ''/w'' [''cot'', ''T1'']) = ''/w/cot/T1''
   \<and> \<not> startswith ''/w/etc/passwd'' ''/w/cot/T1''
   \<and> get_and_check_single_upstream_artifact_full_path ''/home/worker'' (\<lambda>p. p = ''/w/etc/passwd'')
      \<lparr>work_dir = ''/w'', artifact_dir = ''/a'',
        claimed_task = \<lparr>dependencies = [], taskGroupId = ''G'', upstreamArtifacts = []\<rparr>\<rparr>
      ''T1'' ''../../etc/passwd'' = Inr ''/w/etc/passwd''"
  by (simp add: get_and_check_single_upstream_artifact_full_path_def path_eval)

subsection \<open>Retries\<close>

lemma retry_from_first_final:
  "attempt \<le> k \<Longrightarrow> k \<le> attempts \<or> k = attempt \<Longrightarrow>
   (\<forall>j. attempt \<le> j \<and> j < k \<longrightarrow> transient_failure retry_exceptions (func j)) \<Longrightarrow>
   \<not> transient_failure retry_exceptions (func k) \<Longrightarrow>
   retry_from retry_exceptions attempts func attempt = (func k, k)"
proof (induction retry_exceptions attempts func attempt rule: retry_from.induct)
  case (1 retry_exceptions attempts func attempt)
  show ?case
  proof (cases "attempt = k")
    case True
    with "1.prems" show ?thesis by (subst retry_from.simps) simp
  next
    case False
    with "1.prems" have lt: "attempt < k" and tr: "transient_failure retry_exceptions (func attempt)"
      and le: "k \<le> attempts"
      by auto
    from lt le have "attempt < attempts" by simp
    moreover have "retry_from retry_exceptions attempts func (Suc attempt) = (func k, k)"
      using "1.IH" tr \<open>attempt < attempts\<close> lt le "1.prems" by auto
    ultimately show ?thesis using tr by (subst retry_from.simps) simp
  qed
qed

lemma retry_from_exhausted:
  "(\<forall>j. attempt \<le> j \<and> j \<le> max attempt attempts \<longrightarrow> transient_failure retry_exceptions (func j)) \<Longrightarrow>
   retry_from retry_exceptions attempts func attempt
     = (func (max attempt attempts), max attempt attempts)"
proof (induction retry_exceptions attempts func attempt rule: retry_from.induct)
  case (1 retry_exceptions attempts func attempt)
  show ?case
  proof (cases "attempt < attempts")
    case True
    then have m: "max (Suc attempt) attempts = max attempt attempts" by simp
    from "1.prems" have tr: "transient_failure retry_exceptions (func attempt)" by simp
    have "retry_from retry_exceptions attempts func (Suc attempt)
            = (func (max (Suc attempt) attempts), max (Suc attempt) attempts)"
      using "1.IH" tr True "1.prems" by auto
    with tr True show ?thesis by (subst retry_from.simps) (simp add: m)
  next
    case False
    then have "max attempt attempts = attempt" by simp
    with False show ?thesis by (subst retry_from.simps) simp
  qed
qed

lemma retry_from_calls_bound:
  "attempt \<le> snd (retry_from retry_exceptions attempts func attempt)
   \<and> snd (retry_from retry_exceptions attempts func attempt) \<le> max attempt attempts"
proof (induction retry_exceptions attempts func attempt rule: retry_from.induct)
  case (1 retry_exceptions attempts func attempt)
  show ?case
  proof (cases "transient_failure retry_exceptions (func attempt) \<and> attempt < attempts")
    case True
    with "1.IH" show ?thesis by (auto simp: retry_from.simps[of _ _ _ attempt])
  next
    case False
    then show ?thesis by (auto simp: retry_from.simps[of _ _ _ attempt])
  qed
qed

lemma raise_future_exceptions_None:
  "raise_future_exceptions rs = None \<longleftrightarrow> \<not> list_ex isl rs"
  by (induction rs rule: raise_future_exceptions.induct) simp_all

lemma raise_future_exceptions_first:
  "\<not> list_ex isl pre \<Longrightarrow> raise_future_exceptions (pre @ Inl e # post) = Some e"
  by (induction pre rule: raise_future_exceptions.induct) simp_all


lemma transient_create_artifact_iff:
  "transient_failure create_artifact_retry_exceptions r \<longleftrightarrow>
     (\<exists>m. r = Inl (ScriptWorkerRetryException m) \<or> r = Inl (ClientError m))"
proof (cases r)
  case (Inl e)
  then show ?thesis by (cases e) (simp_all add: transient_failure_def)
next
  case (Inr v)
  then show ?thesis by (simp add: transient_failure_def)
qed

text \<open>
  C9. An attempt whose PUT is answered with a status other than 200 and 204 raises
  \<open>ScriptWorkerRetryException\<close> (\<open>Bad status n\<close>); 200 and 204 are success. That exception and
  \<open>ClientError\<close> are the transient failures of \<open>retry_create_artifact\<close>: when every attempt
  up to the budget fails transiently, exactly \<open>attempts\<close> attempts are made and the last
  attempt's exception is the result, which makes the awaited batch raise; when attempt \<open>n\<close>
  within the budget is the first to succeed, the result is success after \<open>n\<close> attempts.
\<close>

theorem create_artifact_bad_status_is_retried:
  fixes world fs path target_path content_type content_encoding
  defines "attempt_result \<equiv> create_artifact world fs path target_path content_type content_encoding"
  defines "upload \<equiv> \<lambda>attempts.
             retry_create_artifact attempts world fs path target_path content_type content_encoding"
  shows
   "(createArtifact world target_path k = Inr putUrl \<and> fs path = Some fh
       \<and> session_put world putUrl fh (craft_artifact_put_headers content_type content_encoding) k
            = Inr status \<longrightarrow>
     attempt_result k =
       (if status = 200 \<or> status = 204 then Inr ()
        else Inl (ScriptWorkerRetryException (''Bad status '' @ decimal status))))
    \<and> (transient_failure create_artifact_retry_exceptions r \<longleftrightarrow>
         (\<exists>m. r = Inl (ScriptWorkerRetryException m) \<or> r = Inl (ClientError m)))
    \<and> (1 \<le> attempts
         \<and> (\<forall>j. 1 \<le> j \<and> j \<le> attempts \<longrightarrow>
               transient_failure create_artifact_retry_exceptions (attempt_result j)) \<longrightarrow>
       upload attempts = (attempt_result attempts, attempts)
       \<and> raise_future_exceptions (map fst (pre @ upload attempts # post)) \<noteq> None)
    \<and> (1 \<le> n \<and> n \<le> attempts
         \<and> (\<forall>j. 1 \<le> j \<and> j < n \<longrightarrow>
               transient_failure create_artifact_retry_exceptions (attempt_result j))
         \<and> attempt_result n = Inr () \<longrightarrow>
       upload attempts = (Inr (), n))"
proof (intro conjI impI)
  assume "createArtifact world target_path k = Inr putUrl \<and> fs path = Some fh
       \<and> session_put world putUrl fh (craft_artifact_put_headers content_type content_encoding) k
            = Inr status"
  then show "attempt_result k =
       (if status = 200 \<or> status = 204 then Inr ()
        else Inl (ScriptWorkerRetryException (''Bad status '' @ decimal status)))"
    by (simp add: attempt_result_def create_artifact_def)
next
  show "transient_failure create_artifact_retry_exceptions r \<longleftrightarrow>
         (\<exists>m. r = Inl (ScriptWorkerRetryException m) \<or> r = Inl (ClientError m))"
    by (rule transient_create_artifact_iff)
next
  assume a: "1 \<le> attempts
         \<and> (\<forall>j. 1 \<le> j \<and> j \<le> attempts \<longrightarrow>
               transient_failure create_artifact_retry_exceptions (attempt_result j))"
  then have m: "max 1 attempts = attempts" by simp
  from a show u: "upload attempts = (attempt_result attempts, attempts)"
    using retry_from_exhausted[of 1 attempts create_artifact_retry_exceptions attempt_result]
    by (simp add: upload_def retry_create_artifact_def retry_async_def attempt_result_def m)
  from a have "transient_failure create_artifact_retry_exceptions (attempt_result attempts)"
    by simp
  then have "isl (attempt_result attempts)"
    by (cases "attempt_result attempts") (simp_all add: transient_failure_def)
  then show "raise_future_exceptions (map fst (pre @ upload attempts # post)) \<noteq> None"
    by (simp add: raise_future_exceptions_None u)
next
  assume a: "1 \<le> n \<and> n \<le> attempts
         \<and> (\<forall>j. 1 \<le> j \<and> j < n \<longrightarrow>
               transient_failure create_artifact_retry_exceptions (attempt_result j))
         \<and> attempt_result n = Inr ()"
  then have "\<not> transient_failure create_artifact_retry_exceptions (attempt_result n)"
    by (simp add: transient_failure_def)
  with a show "upload attempts = (Inr (), n)"
    using retry_from_first_final[of 1 n attempts create_artifact_retry_exceptions attempt_result]
    by (simp add: upload_def retry_create_artifact_def retry_async_def attempt_result_def)
qed

lemma decimal_500: "decimal 500 = ''500''"
  by code_simp

theorem create_artifact_bad_status_is_retried_witness:
  "create_artifact
      \<lparr>createArtifact = \<lambda>target attempt. Inr ''https://queue/put'',
        session_put = \<lambda>url body headers attempt. Inr 500\<rparr>
      [''/a/public/x.log'' \<mapsto> ''data''] ''/a/public/x.log'' ''public/x.log'' ''text/plain''
      (Some ''gzip'') 1
     = Inl (ScriptWorkerRetryException ''Bad status 500'')
   \<and> retry_create_artifact 2
      \<lparr>createArtifact = \<lambda>target attempt. Inr ''https://queue/put'',
        session_put = \<lambda>url body headers attempt. Inr 500\<rparr>
      [''/a/public/x.log'' \<mapsto> ''data''] ''/a/public/x.log'' ''public/x.log'' ''text/plain''
      (Some ''gzip'')
     = (Inl (ScriptWorkerRetryException ''Bad status 500''), 2)
   \<and> retry_create_artifact 5
      \<lparr>createArtifact = \<lambda>target attempt. Inr ''https://queue/put'',
        session_put = \<lambda>url body headers attempt. Inr (if attempt < 3 then 500 else 204)\<rparr>
      [''/a/public/x.log'' \<mapsto> ''data''] ''/a/public/x.log'' ''public/x.log'' ''text/plain''
      (Some ''gzip'')
     = (Inr (), 3)"
  using create_artifact_bad_status_is_retried
          [where world = "\<lparr>createArtifact = \<lambda>target attempt. Inr ''https://queue/put'',
                           session_put = \<lambda>url body headers attempt. Inr 500\<rparr>"
             and fs = "[''/a/public/x.log'' \<mapsto> ''data'']" and path = "''/a/public/x.log''"
             and target_path = "''public/x.log''" and content_type = "''text/plain''"
             and content_encoding = "Some ''gzip''" and k = 1 and putUrl = "''https://queue/put''"
             and fh = "''data''" and status = 500 and attempts = 2 and n = 1 and pre = "[]"
             and post = "[]" and r = "Inr ()"]
        create_artifact_bad_status_is_retried
          [where world = "\<lparr>createArtifact = \<lambda>target attempt. Inr ''https://queue/put'',
                           session_put = \<lambda>url body headers attempt.
                             Inr (if attempt < 3 then 500 else 204)\<rparr>"
             and fs = "[''/a/public/x.log'' \<mapsto> ''data'']" and path = "''/a/public/x.log''"
             and target_path = "''public/x.log''" and content_type = "''text/plain''"
             and content_encoding = "Some ''gzip''" and k = 3 and putUrl = "''https://queue/put''"
             and fh = "''data''" and status = 204 and attempts = 5 and n = 3 and pre = "[]"
             and post = "[]" and r = "Inr ()"]
  by (simp add: create_artifact_def transient_failure_def decimal_500)

subsection \<open>Uploading a batch\<close>

lemma compress_present:
  "fs artifact_path \<noteq> None \<Longrightarrow>
     \<exists>mime fs'. compress_artifact_if_supported guess_type gz fs artifact_path = Inr (mime, fs')
        \<and> dom fs' = dom fs"
  by (auto simp: compress_artifact_if_supported_def split: prod.splits)

lemma to_upload_futures_present:
  "\<forall>f \<in> set files. fs (os_path_join (artifact_dir ctx) [f]) \<noteq> None \<Longrightarrow>
     \<exists>fs' new. to_upload_futures guess_type gz ctx fs tasks files = (None, fs', tasks @ new)
        \<and> map ut_target_path new = files
        \<and> map ut_path new = map (\<lambda>f. os_path_join (artifact_dir ctx) [f]) files"
proof (induction files arbitrary: fs tasks)
  case Nil
  show ?case by simp
next
  case (Cons f files)
  let ?path = "os_path_join (artifact_dir ctx) [f]"
  from Cons.prems have "fs ?path \<noteq> None" by simp
  then obtain mime fs1 where c: "compress_artifact_if_supported guess_type gz fs ?path = Inr (mime, fs1)"
    and d: "dom fs1 = dom fs"
    using compress_present by blast
  obtain content_type content_encoding where m: "mime = (content_type, content_encoding)"
    by (cases mime)
  let ?t = "\<lparr>ut_path = ?path, ut_target_path = f,
              ut_content_type = content_type, ut_content_encoding = content_encoding\<rparr>"
  from Cons.prems d have "\<forall>g \<in> set files. fs1 (os_path_join (artifact_dir ctx) [g]) \<noteq> None"
    by (metis domIff list.set_intros(2))
  from Cons.IH[OF this, of "tasks @ [?t]"]
  obtain fs' new where r: "to_upload_futures guess_type gz ctx fs1 (tasks @ [?t]) files
                             = (None, fs', (tasks @ [?t]) @ new)"
    and t: "map ut_target_path new = files"
    and p: "map ut_path new = map (\<lambda>f. os_path_join (artifact_dir ctx) [f]) files"
    by blast
  have a: "to_upload_futures guess_type gz ctx fs tasks (f # files) = (None, fs', tasks @ (?t # new))"
    using c m r by (simp add: Let_def)
  have b: "map ut_target_path (?t # new) = f # files" using t by simp
  have "map ut_path (?t # new) = map (\<lambda>f. os_path_join (artifact_dir ctx) [f]) (f # files)"
    using p by simp
  with a b show ?case
    by (intro exI[where x = fs'] exI[where x = "?t # new"] conjI)
qed

text \<open>
  C6. With every listed file present under the artifact directory, one upload operation is
  started per file, in order, and each runs to its own end whatever its siblings do: its
  outcome is that of its own retried \<open>create_artifact\<close> calls. The call raises nothing exactly
  when all of them succeed; otherwise it raises the exception of the first failed operation
  of the list. The target paths whose upload succeeded are uploaded whether or not the call
  raises.
\<close>

theorem upload_artifacts_batch:
  fixes guess_type gz attempts world ctx fs files
  defines "out \<equiv> upload_artifacts guess_type gz attempts world ctx fs files"
  defines "run \<equiv> run_upload_task attempts world (up_fs out)"
  assumes present: "\<forall>f \<in> set files. fs (os_path_join (artifact_dir ctx) [f]) \<noteq> None"
  shows "map ut_target_path (up_started out) = files
       \<and> length (up_started out) = length files
       \<and> up_finished out = map run (up_started out)
       \<and> (up_raised out = None \<longleftrightarrow> (\<forall>t \<in> set (up_started out). \<not> isl (fst (run t))))
       \<and> (up_started out = pre @ t # post \<and> (\<forall>s \<in> set pre. \<not> isl (fst (run s)))
            \<and> fst (run t) = Inl e \<longrightarrow> up_raised out = Some e)
       \<and> up_uploaded out = map ut_target_path (filter (\<lambda>t. \<not> isl (fst (run t))) (up_started out))"
proof -
  from to_upload_futures_present[OF present, of guess_type gz "[]"]
  obtain fs' new where r: "to_upload_futures guess_type gz ctx fs [] files = (None, fs', new)"
    and t: "map ut_target_path new = files"
    by auto
  have o: "out = \<lparr>up_raised = raise_future_exceptions (map fst (map (run_upload_task attempts world fs') new)),
            up_fs = fs', up_started = new,
            up_finished = map (run_upload_task attempts world fs') new,
            up_uploaded = map ut_target_path
               (filter (\<lambda>t. \<not> isl (fst (run_upload_task attempts world fs' t))) new)\<rparr>"
    by (simp add: out_def upload_artifacts_def r Let_def)
  have run: "run = run_upload_task attempts world fs'"
    by (simp add: run_def o)
  have len: "length new = length files"
    using t by (metis length_map)
  have first: "up_raised out = Some e"
    if "up_started out = pre @ t # post" "\<forall>s \<in> set pre. \<not> isl (fst (run s))" "fst (run t) = Inl e"
  proof -
    from that(1) have n: "new = pre @ t # post" by (simp add: o)
    have "\<not> list_ex isl (map (fst \<circ> run) pre)"
      using that(2) by (simp add: list_ex_iff)
    then have "raise_future_exceptions (map (fst \<circ> run) pre @ Inl e # map (fst \<circ> run) post) = Some e"
      by (rule raise_future_exceptions_first)
    then show ?thesis using that(3) by (simp add: o n run)
  qed
  show ?thesis
    using t len first
    by (auto simp: o run raise_future_exceptions_None list_ex_iff)
qed


theorem upload_artifacts_batch_witness:
  "list_all (\<lambda>f. [''/a/public/bad.bin'' \<mapsto> ''x'', ''/a/public/good.bin'' \<mapsto> ''y'']
                    (os_path_join ''/a'' [f]) \<noteq> None) [''public/bad.bin'', ''public/good.bin'']
   \<and> map ut_target_path (up_started
        (upload_artifacts (\<lambda>p. (None, None)) (\<lambda>b. ''gz:'' @ b) 2
           \<lparr>createArtifact = \<lambda>target attempt. Inr target,
             session_put = \<lambda>url body headers attempt.
               Inr (if url = ''public/bad.bin'' then 500 else 200)\<rparr>
           \<lparr>work_dir = ''/w'', artifact_dir = ''/a'',
             claimed_task = \<lparr>dependencies = [], taskGroupId = ''G'', upstreamArtifacts = []\<rparr>\<rparr>
           [''/a/public/bad.bin'' \<mapsto> ''x'', ''/a/public/good.bin'' \<mapsto> ''y'']
           [''public/bad.bin'', ''public/good.bin'']))
       = [''public/bad.bin'', ''public/good.bin'']
   \<and> up_raised
        (upload_artifacts (\<lambda>p. (None, None)) (\<lambda>b. ''gz:'' @ b) 2
           \<lparr>createArtifact = \<lambda>target attempt. Inr target,
             session_put = \<lambda>url body headers attempt.
               Inr (if url = ''public/bad.bin'' then 500 else 200)\<rparr>
           \<lparr>work_dir = ''/w'', artifact_dir = ''/a'',
             claimed_task = \<lparr>dependencies = [], taskGroupId = ''G'', upstreamArtifacts = []\<rparr>\<rparr>
           [''/a/public/bad.bin'' \<mapsto> ''x'', ''/a/public/good.bin'' \<mapsto> ''y'']
           [''public/bad.bin'', ''public/good.bin''])
       = Some (ScriptWorkerRetryException ''Bad status 500'')
   \<and> up_uploaded
        (upload_artifacts (\<lambda>p. (None, None)) (\<lambda>b. ''gz:'' @ b) 2
           \<lparr>createArtifact = \<lambda>target attempt. Inr target,
             session_put = \<lambda>url body headers attempt.
               Inr (if url = ''public/bad.bin'' then 500 else 200)\<rparr>
           \<lparr>work_dir = ''/w'', artifact_dir = ''/a'',
             claimed_task = \<lparr>dependencies = [], taskGroupId = ''G'', upstreamArtifacts = []\<rparr>\<rparr>
           [''/a/public/bad.bin'' \<mapsto> ''x'', ''/a/public/good.bin'' \<mapsto> ''y'']
           [''public/bad.bin'', ''public/good.bin''])
       = [''public/good.bin'']"
proof -
  define world where "world = \<lparr>createArtifact = \<lambda>target attempt. Inr target,
             session_put = \<lambda>url (body :: bytes) (headers :: (string \<times> string) list) (attempt :: nat).
               Inr (if url = ''public/bad.bin'' then 500 else 200 :: nat)\<rparr>"
  define ctx where "ctx = \<lparr>work_dir = ''/w'', artifact_dir = ''/a'',
             claimed_task = \<lparr>dependencies = [], taskGroupId = ''G'', upstreamArtifacts = []\<rparr>\<rparr>"
  define fs where "fs = [''/a/public/bad.bin'' \<mapsto> ''x'', ''/a/public/good.bin'' \<mapsto> ''y'']"
  define bad where "bad = \<lparr>ut_path = ''/a/public/bad.bin'', ut_target_path = ''public/bad.bin'',
                ut_content_type = ''application/binary'', ut_content_encoding = None\<rparr>"
  define good where "good = \<lparr>ut_path = ''/a/public/good.bin'', ut_target_path = ''public/good.bin'',
                ut_content_type = ''application/binary'', ut_content_encoding = None\<rparr>"
  define out where "out = upload_artifacts (\<lambda>p. (None, None)) (\<lambda>b. ''gz:'' @ b) 2 world ctx fs
                            [''public/bad.bin'', ''public/good.bin'']"
  have j: "os_path_join ''/a'' [''public/bad.bin''] = ''/a/public/bad.bin''"
          "os_path_join ''/a'' [''public/good.bin''] = ''/a/public/good.bin''"
    by (simp_all add: os_path_join_def join_step_def startswith_def endswith_def)
  have g: "guess_content_type_and_encoding (\<lambda>p. (None, None)) ''/a/public/bad.bin''
             = (''application/binary'', None)"
          "guess_content_type_and_encoding (\<lambda>p. (None, None)) ''/a/public/good.bin''
             = (''application/binary'', None)"
    by (simp_all add: guess_content_type_and_encoding_def EXTENSION_TO_MIME_TYPE_def endswith_def
          str_or_def)
  have present: "\<forall>f \<in> set [''public/bad.bin'', ''public/good.bin''].
                   fs (os_path_join (artifact_dir ctx) [f]) \<noteq> None"
    by (simp add: j ctx_def fs_def)
  note b = upload_artifacts_batch[OF present, of "\<lambda>p. (None, None)" "\<lambda>b. ''gz:'' @ b" 2 world
             "[]" bad "[good]" "ScriptWorkerRetryException ''Bad status 500''", folded out_def]
  have c: "compress_artifact_if_supported (\<lambda>p. (None, None)) (\<lambda>b. ''gz:'' @ b) fs p
             = Inr ((''application/binary'', None), fs)"
    if "p = ''/a/public/bad.bin'' \<or> p = ''/a/public/good.bin''" for p
    using that g by (auto simp: compress_artifact_if_supported_def GZIP_SUPPORTED_CONTENT_TYPE_def)
  have sched: "to_upload_futures (\<lambda>p. (None, None)) (\<lambda>b. ''gz:'' @ b) ctx fs []
                 [''public/bad.bin'', ''public/good.bin''] = (None, fs, [bad, good])"
    using c[of "''/a/public/bad.bin''"] c[of "''/a/public/good.bin''"]
    by (simp add: j ctx_def bad_def good_def Let_def)
  have started: "up_started out = [bad, good]" and fs': "up_fs out = fs"
    unfolding out_def upload_artifacts_def sched by simp_all
  have rb: "run_upload_task 2 world fs bad = (Inl (ScriptWorkerRetryException ''Bad status 500''), 2)"
    by (simp add: run_upload_task_def retry_create_artifact_def retry_async_def retry_from.simps
          create_artifact_def transient_failure_def decimal_500 world_def fs_def bad_def)
  have rg: "run_upload_task 2 world fs good = (Inr (), 1)"
    by (simp add: run_upload_task_def retry_create_artifact_def retry_async_def retry_from.simps
          create_artifact_def transient_failure_def world_def fs_def good_def)
  from b have "map ut_target_path (up_started out) = [''public/bad.bin'', ''public/good.bin'']"
    by blast
  moreover from b have "up_raised out = Some (ScriptWorkerRetryException ''Bad status 500'')"
    unfolding started fs' rb by simp
  moreover have "up_uploaded out = [''public/good.bin'']"
  proof -
    from b have "up_uploaded out = map ut_target_path [good]"
      unfolding started fs' by (simp add: rb rg)
    then show ?thesis by (simp add: good_def)
  qed
  moreover have "list_all (\<lambda>f. fs (os_path_join ''/a'' [f]) \<noteq> None)
                   [''public/bad.bin'', ''public/good.bin'']"
    by (simp add: j fs_def)
  ultimately show ?thesis
    unfolding out_def world_def ctx_def fs_def by blast
qed

subsection \<open>Downloading a batch\<close>

lemma validate_and_schedule_valid:
  "\<forall>u \<in> set urls. \<not> isl (validate u) \<Longrightarrow>
     validate_and_schedule validate parent_dir files tasks urls =
       (None,
        files @ map (\<lambda>u. os_path_join parent_dir [projr (validate u)]) urls,
        tasks @ map (\<lambda>u. (u, os_path_join parent_dir [projr (validate u)])) urls)"
proof (induction urls arbitrary: files tasks)
  case Nil
  show ?case by simp
next
  case (Cons u urls)
  from Cons.prems obtain rel where "validate u = Inr rel" by (cases "validate u") auto
  with Cons show ?case by (simp add: Let_def)
qed

lemma validate_and_schedule_append:
  "\<forall>u \<in> set pre. \<not> isl (validate u) \<Longrightarrow>
     validate_and_schedule validate parent_dir files tasks (pre @ rest) =
       validate_and_schedule validate parent_dir
         (files @ map (\<lambda>u. os_path_join parent_dir [projr (validate u)]) pre)
         (tasks @ map (\<lambda>u. (u, os_path_join parent_dir [projr (validate u)])) pre) rest"
proof (induction pre arbitrary: files tasks)
  case Nil
  show ?case by simp
next
  case (Cons u pre)
  from Cons.prems obtain rel where "validate u = Inr rel" by (cases "validate u") auto
  with Cons show ?case by (simp add: Let_def)
qed

lemma validate_and_schedule_invalid:
  assumes "\<forall>u \<in> set pre. \<not> isl (validate u)" and "validate u = Inl e"
  shows "validate_and_schedule validate parent_dir [] [] (pre @ u # post) =
           (Some e,
            map (\<lambda>u. os_path_join parent_dir [projr (validate u)]) pre,
            map (\<lambda>u. (u, os_path_join parent_dir [projr (validate u)])) pre)"
  using assms by (simp add: validate_and_schedule_append)

lemma first_invalid_split:
  "\<exists>u \<in> set urls. isl (validate u) \<Longrightarrow>
     \<exists>pre u post. urls = pre @ u # post \<and> (\<forall>w \<in> set pre. \<not> isl (validate w)) \<and> isl (validate u)"
proof (induction urls)
  case Nil
  then show ?case by simp
next
  case (Cons a urls)
  show ?case
  proof (cases "isl (validate a)")
    case True
    then have "a # urls = [] @ a # urls \<and> (\<forall>w \<in> set []. \<not> isl (validate w)) \<and> isl (validate a)"
      by simp
    then show ?thesis by blast
  next
    case False
    with Cons.prems have "\<exists>u \<in> set urls. isl (validate u)" by simp
    from Cons.IH[OF this] obtain pre u post where
      "urls = pre @ u # post" "\<forall>w \<in> set pre. \<not> isl (validate w)" "isl (validate u)" by blast
    with False have "a # urls = (a # pre) @ u # post \<and> (\<forall>w \<in> set (a # pre). \<not> isl (validate w))
                       \<and> isl (validate u)" by simp
    then show ?thesis by blast
  qed
qed

lemma download_artifacts_valid:
  assumes "\<forall>u \<in> set file_urls.
             \<not> isl (validate (allowed_task_ids ctx valid_artifact_task_ids) u)"
  shows "download_artifacts validate download_func attempts ctx file_urls
           parent_dir valid_artifact_task_ids =
         \<lparr>dl_result =
            (case raise_future_exceptions
                    (map (\<lambda>u. fst (run_download_task download_func attempts
                            (u, os_path_join (str_or parent_dir (work_dir ctx))
                                  [projr (validate
                                     (allowed_task_ids ctx valid_artifact_task_ids) u)])))
                       file_urls) of
               Some e \<Rightarrow> Inl e
             | None \<Rightarrow>
                 Inr (map (\<lambda>u. os_path_join (str_or parent_dir (work_dir ctx))
                        [projr (validate
                           (allowed_task_ids ctx valid_artifact_task_ids) u)]) file_urls)),
          dl_started =
            map (\<lambda>u. (u, os_path_join (str_or parent_dir (work_dir ctx))
                  [projr (validate (allowed_task_ids ctx valid_artifact_task_ids) u)]))
              file_urls,
          dl_finished =
            map (\<lambda>u. run_download_task download_func attempts
                  (u, os_path_join (str_or parent_dir (work_dir ctx))
                        [projr (validate
                           (allowed_task_ids ctx valid_artifact_task_ids) u)]))
              file_urls\<rparr>"
  using assms
  unfolding download_artifacts_def Let_def
  by (simp add: validate_and_schedule_valid comp_def)

lemma download_artifacts_invalid:
  assumes "\<forall>w \<in> set pre.
             \<not> isl (validate (allowed_task_ids ctx valid_artifact_task_ids) w)"
    and "validate (allowed_task_ids ctx valid_artifact_task_ids) u = Inl e"
  shows "download_artifacts validate download_func attempts ctx (pre @ u # post)
           parent_dir valid_artifact_task_ids =
         \<lparr>dl_result = Inl e,
          dl_started =
            map (\<lambda>w. (w, os_path_join (str_or parent_dir (work_dir ctx))
                  [projr (validate (allowed_task_ids ctx valid_artifact_task_ids) w)]))
              pre,
          dl_finished = []\<rparr>"
  using assms
  unfolding download_artifacts_def Let_def
  by (simp add: validate_and_schedule_invalid)


text \<open>
  C8. The call returns a list exactly when every URL passes validation and every download
  operation succeeds after its retries, and the list is then the destination directory joined
  with each validated relative path, in the order of the input URLs. When the URLs are valid,
  one operation per URL is run, and the failure of any one of them makes the call raise.
\<close>

theorem download_artifacts_all_or_nothing:
  fixes validate :: "string list \<Rightarrow> 'u \<Rightarrow> error + string"
    and download_func attempts ctx file_urls parent_dir valid_artifact_task_ids
  defines "out \<equiv> download_artifacts validate download_func attempts ctx file_urls
                     parent_dir valid_artifact_task_ids"
  defines "v \<equiv> validate (allowed_task_ids ctx valid_artifact_task_ids)"
  defines "dest \<equiv> \<lambda>u. os_path_join (str_or parent_dir (work_dir ctx)) [projr (v u)]"
  defines "run \<equiv> \<lambda>u. run_download_task download_func attempts (u, dest u)"
  shows "(dl_result out = Inr files \<longleftrightarrow>
            (\<forall>u \<in> set file_urls. \<not> isl (v u)) \<and> (\<forall>u \<in> set file_urls. \<not> isl (fst (run u)))
            \<and> files = map dest file_urls)
       \<and> ((\<forall>u \<in> set file_urls. \<not> isl (v u)) \<longrightarrow>
            map fst (dl_started out) = file_urls \<and> dl_finished out = map run file_urls)
       \<and> ((\<forall>u \<in> set file_urls. \<not> isl (v u)) \<and> failed \<in> set file_urls \<and> isl (fst (run failed)) \<longrightarrow>
            isl (dl_result out))"
proof (cases "\<forall>u \<in> set file_urls. \<not> isl (v u)")
  case True
  have valid: "\<forall>u \<in> set file_urls. \<not> isl (validate (allowed_task_ids ctx valid_artifact_task_ids) u)"
    using True by (simp add: v_def)
  have o: "out = \<lparr>dl_result =
                   (case raise_future_exceptions (map (\<lambda>u. fst (run u)) file_urls) of
                      Some e \<Rightarrow> Inl e | None \<Rightarrow> Inr (map dest file_urls)),
                 dl_started = map (\<lambda>u. (u, dest u)) file_urls,
                 dl_finished = map run file_urls\<rparr>"
    unfolding out_def run_def dest_def v_def
    by (rule download_artifacts_valid[where validate = validate, OF valid])
  have none: "raise_future_exceptions (map (\<lambda>u. fst (run u)) file_urls) = None
                \<longleftrightarrow> (\<forall>u \<in> set file_urls. \<not> isl (fst (run u)))"
    by (simp add: raise_future_exceptions_None list_ex_iff)
  show ?thesis
  proof (cases "raise_future_exceptions (map (\<lambda>u. fst (run u)) file_urls)")
    case None
    with none True show ?thesis by (auto simp: o comp_def)
  next
    case (Some e)
    with none True show ?thesis by (auto simp: o comp_def)
  qed
next
  case False
  then have "\<exists>u \<in> set file_urls. isl (v u)" by simp
  from first_invalid_split[OF this] obtain pre u post where
    sp: "file_urls = pre @ u # post" and ok: "\<forall>w \<in> set pre. \<not> isl (v w)" and bad: "isl (v u)"
    by blast
  from bad obtain e where e: "v u = Inl e" by (cases "v u") auto
  have "dl_result out = Inl e"
    unfolding out_def sp
    using download_artifacts_invalid[where validate = validate, OF ok[unfolded v_def] e[unfolded v_def]]
    by simp
  with False show ?thesis by auto
qed

theorem download_artifacts_all_or_nothing_witness:
  "list_all (\<lambda>u. \<not> isl (validate_artifact_url
        (allowed_task_ids \<lparr>work_dir = ''/w'', artifact_dir = ''/a'',
            claimed_task = \<lparr>dependencies = [''A''], taskGroupId = ''B'', upstreamArtifacts = []\<rparr>\<rparr> None) u))
      [\<lparr>url_task_id = ''A'', url_filepath = ''public/a.txt''\<rparr>,
       \<lparr>url_task_id = ''B'', url_filepath = ''public/b.txt''\<rparr>]
   \<and> dl_result (download_artifacts validate_artifact_url (\<lambda>u p attempt. Inr ()) 5
         \<lparr>work_dir = ''/w'', artifact_dir = ''/a'',
            claimed_task = \<lparr>dependencies = [''A''], taskGroupId = ''B'', upstreamArtifacts = []\<rparr>\<rparr>
         [\<lparr>url_task_id = ''A'', url_filepath = ''public/a.txt''\<rparr>,
          \<lparr>url_task_id = ''B'', url_filepath = ''public/b.txt''\<rparr>] None None)
       = Inr [''/w/public/a.txt'', ''/w/public/b.txt'']
   \<and> isl (dl_result (download_artifacts validate_artifact_url
         (\<lambda>u p attempt. if url_task_id u = ''B'' then Inl (DownloadError ''404'') else Inr ()) 5
         \<lparr>work_dir = ''/w'', artifact_dir = ''/a'',
            claimed_task = \<lparr>dependencies = [''A''], taskGroupId = ''B'', upstreamArtifacts = []\<rparr>\<rparr>
         [\<lparr>url_task_id = ''A'', url_filepath = ''public/a.txt''\<rparr>,
          \<lparr>url_task_id = ''B'', url_filepath = ''public/b.txt''\<rparr>] None None))"
proof -
  define ctx where "ctx = \<lparr>work_dir = ''/w'', artifact_dir = ''/a'',
            claimed_task = \<lparr>dependencies = [''A''], taskGroupId = ''B'', upstreamArtifacts = []\<rparr>\<rparr>"
  define ua where "ua = \<lparr>url_task_id = ''A'', url_filepath = ''public/a.txt''\<rparr>"
  define ub where "ub = \<lparr>url_task_id = ''B'', url_filepath = ''public/b.txt''\<rparr>"
  have ids: "allowed_task_ids ctx None = [''A'', ''B'']"
    by (simp add: allowed_task_ids_def ctx_def get_decision_task_id_def)
  have n: "normpath ''public/a.txt'' = ''public/a.txt''" "normpath ''public/b.txt'' = ''public/b.txt''"
    by (simp_all add: normpath_def initial_slashes_def startswith_def split_sep_def
          normpath_step_def Let_def)
  have va: "validate_artifact_url [''A'', ''B''] ua = Inr ''public/a.txt''"
    and vb: "validate_artifact_url [''A'', ''B''] ub = Inr ''public/b.txt''"
    by (simp_all add: validate_artifact_url_def escapes_root_def n startswith_def split_sep_def
          ua_def ub_def)
  have valid: "\<forall>u \<in> set [ua, ub]. \<not> isl (validate_artifact_url (allowed_task_ids ctx None) u)"
    by (simp add: ids va vb)
  have j: "os_path_join ''/w'' [''public/a.txt''] = ''/w/public/a.txt''"
          "os_path_join ''/w'' [''public/b.txt''] = ''/w/public/b.txt''"
    by (simp_all add: os_path_join_def join_step_def startswith_def endswith_def)
  have wd: "str_or None (work_dir ctx) = ''/w''"
    by (simp add: str_or_def ctx_def)
  have r1: "run_download_task (\<lambda>u p attempt. Inr ()) 5 t = (Inr (), 1)" for t :: "artifact_url \<times> string"
    by (simp add: run_download_task_def retry_async_def retry_from.simps transient_failure_def)
  have r2: "isl (fst (run_download_task
                  (\<lambda>u p attempt. if url_task_id u = ''B'' then Inl (DownloadError ''404'') else Inr ())
                  5 (ub, ''/w/public/b.txt'')))"
    using retry_from_exhausted[of 1 5 download_retry_exceptions
            "\<lambda>attempt. Inl (DownloadError ''404'') :: error + unit"]
    by (simp add: run_download_task_def retry_async_def transient_failure_def ub_def)
  note t1 = download_artifacts_all_or_nothing
              [of validate_artifact_url "\<lambda>u p attempt. Inr ()" 5 ctx "[ua, ub]" None None
                  "[''/w/public/a.txt'', ''/w/public/b.txt'']" ub]
  note t2 = download_artifacts_all_or_nothing
              [of validate_artifact_url
                  "\<lambda>u p attempt. if url_task_id u = ''B'' then Inl (DownloadError ''404'') else Inr ()"
                  5 ctx "[ua, ub]" None None "[]" ub]
  have a: "dl_result (download_artifacts validate_artifact_url (\<lambda>u p attempt. Inr ()) 5 ctx
             [ua, ub] None None) = Inr [''/w/public/a.txt'', ''/w/public/b.txt'']"
    using t1 by (simp add: ids va vb wd j r1)
  have b: "isl (dl_result (download_artifacts validate_artifact_url
             (\<lambda>u p attempt. if url_task_id u = ''B'' then Inl (DownloadError ''404'') else Inr ())
             5 ctx [ua, ub] None None))"
    using t2 r2 by (simp add: ids va vb wd j)
  have c: "list_all (\<lambda>u. \<not> isl (validate_artifact_url (allowed_task_ids ctx None) u)) [ua, ub]"
    using valid by simp
  from a b c show ?thesis
    unfolding ctx_def ua_def ub_def by blast
qed


text \<open>
  C3. Each URL is validated against the allow-list, which is the given list or, when none
  (or an empty one) is given, the claimed task's dependencies followed by the decision task
  id. At the first URL that validation rejects the call raises the validation error: no
  download operation has run, none was created for that URL, and only the URLs before it
  had theirs created. The validator rejects every URL whose task id is outside the allow-list.
\<close>

theorem download_artifacts_validates_first:
  fixes validate :: "string list \<Rightarrow> 'u \<Rightarrow> error + string"
    and download_func attempts ctx file_urls parent_dir valid_artifact_task_ids
  defines "out \<equiv> download_artifacts validate download_func attempts ctx file_urls
                     parent_dir valid_artifact_task_ids"
  defines "v \<equiv> validate (allowed_task_ids ctx valid_artifact_task_ids)"
  shows "(file_urls = pre @ u # post \<and> (\<forall>w \<in> set pre. \<not> isl (v w)) \<and> v u = Inl e \<longrightarrow>
            dl_result out = Inl e \<and> dl_finished out = []
            \<and> map fst (dl_started out) = pre \<and> u \<notin> set (map fst (dl_started out)))
       \<and> allowed_task_ids ctx None =
            dependencies (claimed_task ctx) @ [get_decision_task_id (claimed_task ctx)]
       \<and> (ids \<noteq> [] \<longrightarrow> allowed_task_ids ctx (Some ids) = ids)
       \<and> (url_task_id url \<notin> set allow_list \<longrightarrow>
            validate_artifact_url allow_list url = Inl (ScriptWorkerTaskException ''Can't validate url''))"
proof -
  have first: "dl_result out = Inl e \<and> dl_finished out = []
            \<and> map fst (dl_started out) = pre \<and> u \<notin> set (map fst (dl_started out))"
    if a: "file_urls = pre @ u # post \<and> (\<forall>w \<in> set pre. \<not> isl (v w)) \<and> v u = Inl e"
  proof -
    from a have ok: "\<forall>w \<in> set pre. \<not> isl (validate (allowed_task_ids ctx valid_artifact_task_ids) w)"
      and bad: "validate (allowed_task_ids ctx valid_artifact_task_ids) u = Inl e"
      by (simp_all add: v_def)
    have o: "out = \<lparr>dl_result = Inl e,
              dl_started = map (\<lambda>w. (w, os_path_join (str_or parent_dir (work_dir ctx)) [projr (v w)])) pre,
              dl_finished = []\<rparr>"
      using a download_artifacts_invalid[where validate = validate, OF ok bad]
      by (simp add: out_def v_def)
    from a have "u \<notin> set pre" by auto
    then show ?thesis by (simp add: o comp_def)
  qed
  have dflt: "allowed_task_ids ctx None =
            dependencies (claimed_task ctx) @ [get_decision_task_id (claimed_task ctx)]"
    by (simp add: allowed_task_ids_def)
  have given: "ids \<noteq> [] \<longrightarrow> allowed_task_ids ctx (Some ids) = ids"
    by (simp add: allowed_task_ids_def)
  have reject: "url_task_id url \<notin> set allow_list \<longrightarrow>
            validate_artifact_url allow_list url = Inl (ScriptWorkerTaskException ''Can't validate url'')"
    by (simp add: validate_artifact_url_def)
  from first dflt given reject show ?thesis by blast
qed

theorem download_artifacts_validates_first_witness:
  "[\<lparr>url_task_id = ''A'', url_filepath = ''public/a.txt''\<rparr>,
    \<lparr>url_task_id = ''C'', url_filepath = ''public/c.txt''\<rparr>,
    \<lparr>url_task_id = ''B'', url_filepath = ''public/b.txt''\<rparr>]
     = [\<lparr>url_task_id = ''A'', url_filepath = ''public/a.txt''\<rparr>]
         @ \<lparr>url_task_id = ''C'', url_filepath = ''public/c.txt''\<rparr>
         # [\<lparr>url_task_id = ''B'', url_filepath = ''public/b.txt''\<rparr>]
   \<and> validate_artifact_url [''A'', ''B''] \<lparr>url_task_id = ''A'', url_filepath = ''public/a.txt''\<rparr>
       = Inr ''public/a.txt''
   \<and> validate_artifact_url [''A'', ''B''] \<lparr>url_task_id = ''C'', url_filepath = ''public/c.txt''\<rparr>
       = Inl (ScriptWorkerTaskException ''Can't validate url'')
   \<and> download_artifacts validate_artifact_url (\<lambda>u p attempt. Inr ()) 5
         \<lparr>work_dir = ''/w'', artifact_dir = ''/a'',
            claimed_task = \<lparr>dependencies = [''A''], taskGroupId = ''B'', upstreamArtifacts = []\<rparr>\<rparr>
         [\<lparr>url_task_id = ''A'', url_filepath = ''public/a.txt''\<rparr>,
          \<lparr>url_task_id = ''C'', url_filepath = ''public/c.txt''\<rparr>,
          \<lparr>url_task_id = ''B'', url_filepath = ''public/b.txt''\<rparr>] None None
       = \<lparr>dl_result = Inl (ScriptWorkerTaskException ''Can't validate url''),
          dl_started = [(\<lparr>url_task_id = ''A'', url_filepath = ''public/a.txt''\<rparr>, ''/w/public/a.txt'')],
          dl_finished = []\<rparr>"
proof -
  define ctx where "ctx = \<lparr>work_dir = ''/w'', artifact_dir = ''/a'',
            claimed_task = \<lparr>dependencies = [''A''], taskGroupId = ''B'', upstreamArtifacts = []\<rparr>\<rparr>"
  define ua where "ua = \<lparr>url_task_id = ''A'', url_filepath = ''public/a.txt''\<rparr>"
  define ub where "ub = \<lparr>url_task_id = ''B'', url_filepath = ''public/b.txt''\<rparr>"
  define uc where "uc = \<lparr>url_task_id = ''C'', url_filepath = ''public/c.txt''\<rparr>"
  define out where "out = download_artifacts validate_artifact_url
                            (\<lambda>(u :: artifact_url) (p :: string) (attempt :: nat). Inr () :: error + unit)
                            5 ctx [ua, uc, ub] None None"
  have ids: "allowed_task_ids ctx None = [''A'', ''B'']"
    by (simp add: allowed_task_ids_def ctx_def get_decision_task_id_def)
  have n: "normpath ''public/a.txt'' = ''public/a.txt''"
    by (simp add: normpath_def initial_slashes_def startswith_def split_sep_def
          normpath_step_def Let_def)
  have va: "validate_artifact_url [''A'', ''B''] ua = Inr ''public/a.txt''"
    by (simp add: validate_artifact_url_def escapes_root_def n startswith_def split_sep_def ua_def)
  have vc: "validate_artifact_url [''A'', ''B''] uc = Inl (ScriptWorkerTaskException ''Can't validate url'')"
    by (simp add: validate_artifact_url_def uc_def)
  have j: "os_path_join ''/w'' [''public/a.txt''] = ''/w/public/a.txt''"
    by (simp add: os_path_join_def join_step_def startswith_def endswith_def)
  note t = download_artifacts_validates_first
             [of "[ua, uc, ub]" "[ua]" uc "[ub]" validate_artifact_url ctx None
                 "ScriptWorkerTaskException ''Can't validate url''"
                 "\<lambda>(u :: artifact_url) (p :: string) (attempt :: nat). Inr () :: error + unit"
                 5 None "[''A'']" uc "[''A'', ''B'']", folded out_def]
  from t have r: "dl_result out = Inl (ScriptWorkerTaskException ''Can't validate url'')"
     and f: "dl_finished out = []" and s: "map fst (dl_started out) = [ua]"
    by (simp_all add: ids va vc)
  have wd: "str_or None (work_dir ctx) = ''/w''"
    by (simp add: str_or_def ctx_def)
  have ok: "\<forall>w \<in> set [ua]. \<not> isl (validate_artifact_url (allowed_task_ids ctx None) w)"
    by (simp add: ids va)
  have bad: "validate_artifact_url (allowed_task_ids ctx None) uc
               = Inl (ScriptWorkerTaskException ''Can't validate url'')"
    by (simp add: ids vc)
  have started: "dl_started out = [(ua, ''/w/public/a.txt'')]"
    unfolding out_def
    using download_artifacts_invalid[where validate = validate_artifact_url, OF ok bad,
            of "\<lambda>u p attempt. Inr ()" 5 "[ub]" None]
    by (simp add: wd ids va j)
  have "out = \<lparr>dl_result = Inl (ScriptWorkerTaskException ''Can't validate url''),
                dl_started = [(ua, ''/w/public/a.txt'')], dl_finished = []\<rparr>"
    using r f started by (cases out) simp
  with va vc show ?thesis
    unfolding out_def ctx_def ua_def ub_def uc_def by simp
qed

subsection \<open>Cancellation while a task is in flight\<close>

text \<open>
  C4. With a task claimed, a \<^verbatim>\<open>cancel()\<close> that arrives while the task executes, or while
  chain-of-trust verification is in flight, leaves a cycle with exactly one completion
  report, of status worker-shutdown, and exactly one upload call, covering the chain-of-trust
  log artifacts that exist: both \<^verbatim>\<open>public/logs/chain_of_trust.log\<close> and
  \<^verbatim>\<open>public/logs/live_backing.log\<close> when both are files.
\<close>

theorem cancel_during_task_completes_once:
  assumes "task_available env"
    and "cancel = CancelDuringExecute \<or> (cancel = CancelDuringVerify \<and> verify_chain_of_trust env)"
  shows "filter is_complete (run_cycle env cancel) = [CompleteTask WorkerShutdown]
       \<and> filter is_upload (run_cycle env cancel)
            = [DoUpload (filter (isfile env) shutdown_artifact_paths)]
       \<and> (isfile env ''public/logs/chain_of_trust.log'' \<and> isfile env ''public/logs/live_backing.log''
            \<longrightarrow> filter is_upload (run_cycle env cancel)
                 = [DoUpload [''public/logs/chain_of_trust.log'', ''public/logs/live_backing.log'']])"
  using assms
  by (auto simp: run_cycle_def verify_and_finish_def shutdown_interrupt_def shutdown_artifact_paths_def)

theorem cancel_during_task_completes_once_witness:
  "task_available \<lparr>task_available = True, run_status = Success, verify_chain_of_trust = True,
        verify_failure = None, artifact_files = [''public/build/target.zip''],
        upload_status = Success, isfile = \<lambda>p. True\<rparr>
   \<and> run_cycle \<lparr>task_available = True, run_status = Success, verify_chain_of_trust = True,
        verify_failure = None, artifact_files = [''public/build/target.zip''],
        upload_status = Success, isfile = \<lambda>p. True\<rparr> CancelDuringVerify
       = [ClaimWork, PrepareToRunTask, StartReclaim, RunTask, VerifyChainOfTrust,
          DoUpload [''public/logs/chain_of_trust.log'', ''public/logs/live_backing.log''],
          CancelReclaim, CompleteTask WorkerShutdown, Cleanup]
   \<and> filter is_complete (run_cycle \<lparr>task_available = True, run_status = Success,
        verify_chain_of_trust = True, verify_failure = None,
        artifact_files = [''public/build/target.zip''],
        upload_status = Success, isfile = \<lambda>p. True\<rparr> CancelDuringVerify)
       = [CompleteTask WorkerShutdown]
   \<and> filter is_upload (run_cycle \<lparr>task_available = True, run_status = Success,
        verify_chain_of_trust = True, verify_failure = None,
        artifact_files = [''public/build/target.zip''],
        upload_status = Success, isfile = \<lambda>p. True\<rparr> CancelDuringExecute)
       = [DoUpload [''public/logs/chain_of_trust.log'', ''public/logs/live_backing.log'']]"
  using cancel_during_task_completes_once
          [of "\<lparr>task_available = True, run_status = Success, verify_chain_of_trust = True,
        verify_failure = None, artifact_files = [''public/build/target.zip''],
        upload_status = Success, isfile = \<lambda>p. True\<rparr>" CancelDuringVerify]
        cancel_during_task_completes_once
          [of "\<lparr>task_available = True, run_status = Success, verify_chain_of_trust = True,
        verify_failure = None, artifact_files = [''public/build/target.zip''],
        upload_status = Success, isfile = \<lambda>p. True\<rparr>" CancelDuringExecute]
  by (simp add: run_cycle_def verify_and_finish_def shutdown_interrupt_def shutdown_artifact_paths_def)

end
